theory Spec2Isabelle
  imports Complex_Main
begin

section \<open>Strings\<close>

text \<open>
  The search service (\<^verbatim>\<open>search-service.ts\<close>) works on JavaScript strings. They are
  modelled as \<^typ>\<open>string\<close>, a \<^typ>\<open>char\<close> being a code unit below 256. White space is
  what both \<^verbatim>\<open>String.prototype.trim\<close> and the regular expression class \<^verbatim>\<open>\s\<close>
  recognise in that range: tab, line feed, vertical tab, form feed, carriage return,
  space and the no-break space U+00A0.
\<close>

definition isWhitespace :: "char \<Rightarrow> bool" where
  "isWhitespace c =
     (c \<in> set [CHR 0x09, CHR 0x0A, CHR 0x0B, CHR 0x0C, CHR 0x0D, CHR 0x20, CHR 0xA0])"

definition trim :: "string \<Rightarrow> string" where
  "trim s = rev (dropWhile isWhitespace (rev (dropWhile isWhitespace s)))"

text \<open>
  \<^verbatim>\<open>s.split(/\s+/)\<close>: the pieces of \<open>s\<close> between maximal runs of white space. A run at
  the start or at the end of \<open>s\<close> leaves an empty piece there, and the empty string
  splits into the one empty piece.
\<close>

function splitWhitespace :: "string \<Rightarrow> string list" where
  "splitWhitespace [] = [[]]"
| "splitWhitespace (c # cs) =
     (if isWhitespace c then [] # splitWhitespace (dropWhile isWhitespace cs)
      else (case splitWhitespace cs of
              [] \<Rightarrow> [[c]]
            | w # ws \<Rightarrow> (c # w) # ws))"
  by pat_completeness auto
termination
  by (relation "measure length") (auto simp: length_dropWhile_le less_Suc_eq_le)

text \<open>\<^verbatim>\<open>query.trim().split(/\s+/).filter(Boolean)\<close>: the empty string is the only falsy piece.\<close>

definition searchTermsOf :: "string \<Rightarrow> string list" where
  "searchTermsOf query = filter (\<lambda>t. t \<noteq> []) (splitWhitespace (trim query))"

text \<open>
  The capital of a code unit: of \<open>a\<close>--\<open>z\<close>, and of the letters U+00E0--U+00FE other than
  the division sign U+00F7. The micro sign U+00B5 and U+00FF have their capitals beyond
  255 and stay as they are; no keyword holds them or their capitals. This is also how a
  regular expression with the flag \<^verbatim>\<open>i\<close> compares one code unit with a letter of a
  keyword.
\<close>

definition toUpperChar :: "char \<Rightarrow> char" where
  "toUpperChar c =
     (let n = (of_char c :: nat) in
      if (97 \<le> n \<and> n \<le> 122) \<or> (224 \<le> n \<and> n \<le> 254 \<and> n \<noteq> 247)
      then char_of (n - 32) else c)"

text \<open>The store ignores the case of the letters \<open>A\<close>--\<open>Z\<close> when it compares texts.\<close>

definition toLowerChar :: "char \<Rightarrow> char" where
  "toLowerChar c =
     (let n = (of_char c :: nat) in if 65 \<le> n \<and> n \<le> 90 then char_of (n + 32) else c)"

text \<open>
  \<^verbatim>\<open>s.toUpperCase()\<close> takes every code unit to its capital, and the sharp s U+00DF to
  the two letters \<open>SS\<close>.
\<close>

definition toUpperCase :: "string \<Rightarrow> string" where
  "toUpperCase s = concat (map (\<lambda>c. if c = CHR 0xDF then ''SS'' else [toUpperChar c]) s)"

definition toLowerCase :: "string \<Rightarrow> string" where
  "toLowerCase s = map toLowerChar s"

fun startsWith :: "'a list \<Rightarrow> 'a list \<Rightarrow> bool" where
  "startsWith s [] = True"
| "startsWith [] (c # t) = False"
| "startsWith (a # s) (c # t) = (a = c \<and> startsWith s t)"

text \<open>\<^verbatim>\<open>s.includes(t)\<close>: \<open>t\<close> occurs in \<open>s\<close> as a contiguous piece.\<close>

fun str_includes :: "'a list \<Rightarrow> 'a list \<Rightarrow> bool" where
  "str_includes [] t = (t = [])"
| "str_includes (a # s) t = (startsWith (a # s) t \<or> str_includes s t)"

text \<open>
  \<^verbatim>\<open>t.match(/k1|k2|...|kn/i)\<close> for literal keywords: some keyword occurs in \<open>t\<close>, code
  unit by code unit with letter case ignored (the sharp s is no \<open>s\<close> here). The result (a
  match array or \<^verbatim>\<open>null\<close>) is only ever used as a truth value.
\<close>

definition matchKeywords :: "string list \<Rightarrow> string \<Rightarrow> bool" where
  "matchKeywords ks t =
     list_ex (\<lambda>k. str_includes (map toUpperChar t) (map toUpperChar k)) ks"

section \<open>Records of the store\<close>

text \<open>
  The three searchable models of \<^verbatim>\<open>schema.prisma\<close> with their scalar fields. Dates are
  milliseconds since the epoch (\<^verbatim>\<open>Date.getTime()\<close>), decimal amounts are rationals, a
  nullable column is an \<open>option\<close>, and the \<^verbatim>\<open>Json\<close> column is kept as text.
\<close>

datatype InsuranceType = HOME | AUTO | HEALTH | LIFE | PROPERTY | LIABILITY | OTHER

datatype ClaimStatus = DRAFT | SUBMITTED | UNDER_REVIEW | APPROVED | REJECTED | PAID | CLOSED

datatype DocumentType =
  POLICY | CLAIM | IDENTITY | PROOF_OF_LOSS | ESTIMATE | INVOICE | RECEIPT | PHOTO | OTHER

fun InsuranceType_name :: "InsuranceType \<Rightarrow> string" where
  "InsuranceType_name HOME = ''HOME''"
| "InsuranceType_name AUTO = ''AUTO''"
| "InsuranceType_name HEALTH = ''HEALTH''"
| "InsuranceType_name LIFE = ''LIFE''"
| "InsuranceType_name PROPERTY = ''PROPERTY''"
| "InsuranceType_name LIABILITY = ''LIABILITY''"
| "InsuranceType_name InsuranceType.OTHER = ''OTHER''"

fun ClaimStatus_name :: "ClaimStatus \<Rightarrow> string" where
  "ClaimStatus_name DRAFT = ''DRAFT''"
| "ClaimStatus_name SUBMITTED = ''SUBMITTED''"
| "ClaimStatus_name UNDER_REVIEW = ''UNDER_REVIEW''"
| "ClaimStatus_name APPROVED = ''APPROVED''"
| "ClaimStatus_name REJECTED = ''REJECTED''"
| "ClaimStatus_name PAID = ''PAID''"
| "ClaimStatus_name CLOSED = ''CLOSED''"

fun DocumentType_name :: "DocumentType \<Rightarrow> string" where
  "DocumentType_name POLICY = ''POLICY''"
| "DocumentType_name CLAIM = ''CLAIM''"
| "DocumentType_name IDENTITY = ''IDENTITY''"
| "DocumentType_name PROOF_OF_LOSS = ''PROOF_OF_LOSS''"
| "DocumentType_name ESTIMATE = ''ESTIMATE''"
| "DocumentType_name INVOICE = ''INVOICE''"
| "DocumentType_name RECEIPT = ''RECEIPT''"
| "DocumentType_name PHOTO = ''PHOTO''"
| "DocumentType_name DocumentType.OTHER = ''OTHER''"

record InsurancePolicy =
  id :: string
  policyNumber :: string
  userId :: string
  insuranceType :: InsuranceType
  provider :: string
  coverageAmount :: rat
  premium :: rat
  startDate :: int
  endDate :: int
  isActive :: bool
  description :: "string option"
  createdAt :: int
  updatedAt :: int

record Claim =
  id :: string
  claimNumber :: string
  userId :: string
  policyId :: string
  status :: ClaimStatus
  incidentDate :: int
  reportDate :: int
  description :: string
  damageAmount :: "rat option"
  approvedAmount :: "rat option"
  rejectionReason :: "string option"
  createdAt :: int
  updatedAt :: int

record Document =
  id :: string
  fileName :: string
  fileKey :: string
  fileType :: string
  fileSize :: int
  documentType :: DocumentType
  uploadDate :: int
  description :: "string option"
  userId :: string
  policyId :: "string option"
  claimId :: "string option"
  extractedData :: "string option"
  isAnalyzed :: bool
  createdAt :: int
  updatedAt :: int

record db =
  policies :: "InsurancePolicy list"
  claims :: "Claim list"
  documents :: "Document list"

section \<open>Queries of the store client\<close>

text \<open>
  The service builds \<^verbatim>\<open>where\<close> objects and hands them to the store client (Prisma). The
  objects are data here: a \<^verbatim>\<open>where\<close> object is the list of its entries, all of which
  must hold, an entry being a condition on one column or an \<^verbatim>\<open>OR\<close> of entries.
\<close>

datatype field =
  F_id | F_userId | F_policyNumber | F_provider | F_description | F_insuranceType
| F_isActive | F_coverageAmount | F_startDate | F_endDate | F_updatedAt
| F_claimNumber | F_status | F_policyId | F_incidentDate | F_damageAmount
| F_fileName | F_documentType | F_claimId | F_isAnalyzed | F_uploadDate

datatype val = VStr string | VBool bool | VNum rat | VDate int | VNull

datatype cond =
  Equals val
| In "val list"
| Contains string
| Range "val option" "val option"

datatype whereC = Field field cond | OR "whereC list"

type_synonym whereInput = "whereC list"

fun val_le :: "val \<Rightarrow> val \<Rightarrow> bool" where
  "val_le (VNum a) (VNum b) = (a \<le> b)"
| "val_le (VDate a) (VDate b) = (a \<le> b)"
| "val_le _ _ = False"

text \<open>
  Modelled from the spec: what the store does with a condition is the work of the store
  client, a third-party library outside the repository. After sections 4.3 and 4.5 of the
  specification and the client's documentation, \<^verbatim>\<open>{ contains: t, mode: 'insensitive' }\<close>
  holds of a text column in which \<open>t\<close> occurs with letter case ignored, \<^verbatim>\<open>{ in: vs }\<close> of
  a value among \<open>vs\<close>, \<^verbatim>\<open>{ gte: l, lte: h }\<close> of a value within the given bounds, each
  bound being optional, and a bare value of a column equal to it. A null column satisfies
  none of them but the range without bounds.
\<close>

fun cond_holds :: "cond \<Rightarrow> val \<Rightarrow> bool" where
  "cond_holds (Equals v) x = (x \<noteq> VNull \<and> x = v)"
| "cond_holds (In vs) x = (x \<noteq> VNull \<and> x \<in> set vs)"
| "cond_holds (Contains t) x =
     (case x of VStr s \<Rightarrow> str_includes (toLowerCase s) (toLowerCase t) | _ \<Rightarrow> False)"
| "cond_holds (Range lo hi) x =
     ((case lo of None \<Rightarrow> True | Some l \<Rightarrow> val_le l x) \<and>
      (case hi of None \<Rightarrow> True | Some h \<Rightarrow> val_le x h))"

fun where_holds :: "(field \<Rightarrow> val) \<Rightarrow> whereC \<Rightarrow> bool" where
  "where_holds g (Field f c) = cond_holds c (g f)"
| "where_holds g (OR ws) = list_ex (where_holds g) ws"

definition where_all :: "(field \<Rightarrow> val) \<Rightarrow> whereInput \<Rightarrow> bool" where
  "where_all g ws = list_all (where_holds g) ws"

definition optStr :: "string option \<Rightarrow> val" where
  "optStr x = (case x of None \<Rightarrow> VNull | Some s \<Rightarrow> VStr s)"

definition optNum :: "rat option \<Rightarrow> val" where
  "optNum x = (case x of None \<Rightarrow> VNull | Some n \<Rightarrow> VNum n)"

text \<open>The columns of each model that a query can name; any other name reads as null.\<close>

fun policy_field :: "InsurancePolicy \<Rightarrow> field \<Rightarrow> val" where
  "policy_field p F_id = VStr (InsurancePolicy.id p)"
| "policy_field p F_userId = VStr (InsurancePolicy.userId p)"
| "policy_field p F_policyNumber = VStr (policyNumber p)"
| "policy_field p F_provider = VStr (provider p)"
| "policy_field p F_description = optStr (InsurancePolicy.description p)"
| "policy_field p F_insuranceType = VStr (InsuranceType_name (insuranceType p))"
| "policy_field p F_isActive = VBool (isActive p)"
| "policy_field p F_coverageAmount = VNum (coverageAmount p)"
| "policy_field p F_startDate = VDate (startDate p)"
| "policy_field p F_endDate = VDate (endDate p)"
| "policy_field p F_updatedAt = VDate (InsurancePolicy.updatedAt p)"
| "policy_field p _ = VNull"

fun claim_field :: "Claim \<Rightarrow> field \<Rightarrow> val" where
  "claim_field c F_id = VStr (Claim.id c)"
| "claim_field c F_userId = VStr (Claim.userId c)"
| "claim_field c F_claimNumber = VStr (claimNumber c)"
| "claim_field c F_description = VStr (Claim.description c)"
| "claim_field c F_status = VStr (ClaimStatus_name (status c))"
| "claim_field c F_policyId = VStr (Claim.policyId c)"
| "claim_field c F_incidentDate = VDate (incidentDate c)"
| "claim_field c F_damageAmount = optNum (damageAmount c)"
| "claim_field c F_updatedAt = VDate (Claim.updatedAt c)"
| "claim_field c _ = VNull"

fun document_field :: "Document \<Rightarrow> field \<Rightarrow> val" where
  "document_field d F_id = VStr (Document.id d)"
| "document_field d F_userId = VStr (Document.userId d)"
| "document_field d F_fileName = VStr (fileName d)"
| "document_field d F_description = optStr (Document.description d)"
| "document_field d F_documentType = VStr (DocumentType_name (documentType d))"
| "document_field d F_policyId = optStr (Document.policyId d)"
| "document_field d F_claimId = optStr (Document.claimId d)"
| "document_field d F_isAnalyzed = VBool (isAnalyzed d)"
| "document_field d F_uploadDate = VDate (uploadDate d)"
| "document_field d F_updatedAt = VDate (Document.updatedAt d)"
| "document_field d _ = VNull"

section \<open>The store client\<close>

text \<open>
  Modelled from the spec: the calls of the store client (sections 4.3 to 4.5 and 9 of the
  specification: a search by predicate, order, skip and limit, and a count by predicate),
  on the tables of \<^typ>\<open>db\<close>. \<^verbatim>\<open>findMany\<close> keeps the rows that satisfy the \<^verbatim>\<open>where\<close>
  object, orders them by the given column, largest first (rows with equal values stay in
  table order, so that paging is exact), skips \<^verbatim>\<open>skip\<close> rows and returns the next
  \<^verbatim>\<open>take\<close> rows. After the client's documentation it rejects a negative \<^verbatim>\<open>skip\<close>, and a
  negative \<^verbatim>\<open>take\<close> counts rows from the end of the ordered list. \<^verbatim>\<open>count\<close> is the number
  of rows that satisfy the \<^verbatim>\<open>where\<close> object. Failures of the connection are outside the
  model.
\<close>

datatype store_error = InvalidSkip int

definition sortDesc :: "('a \<Rightarrow> int) \<Rightarrow> 'a list \<Rightarrow> 'a list" where
  "sortDesc key xs = sort_key (\<lambda>x. - key x) xs"

definition window :: "int \<Rightarrow> int \<Rightarrow> 'a list \<Rightarrow> 'a list" where
  "window tk sk hits =
     (if 0 \<le> tk then take (nat tk) (drop (nat sk) hits)
      else rev (take (nat (- tk)) (drop (nat sk) (rev hits))))"

definition findMany ::
  "('r \<Rightarrow> field \<Rightarrow> val) \<Rightarrow> ('r \<Rightarrow> int) \<Rightarrow> whereInput \<Rightarrow> int \<Rightarrow> int \<Rightarrow> 'r list
     \<Rightarrow> store_error + 'r list" where
  "findMany g orderBy wh tk sk rows =
     (if sk < 0 then Inl (InvalidSkip sk)
      else Inr (window tk sk (sortDesc orderBy (filter (\<lambda>r. where_all (g r) wh) rows))))"

definition count :: "('r \<Rightarrow> field \<Rightarrow> val) \<Rightarrow> whereInput \<Rightarrow> 'r list \<Rightarrow> int" where
  "count g wh rows = int (length (filter (\<lambda>r. where_all (g r) wh) rows))"

text \<open>
  \<^verbatim>\<open>include: { policy: { select: {...} } }\<close> attaches to each row the selected columns of
  the record its foreign key names, looked up by id alone.
\<close>

datatype relation = R_policy | R_claim

datatype related = NoRelated | Related "(field \<times> val) list"

definition joinPolicy :: "db \<Rightarrow> field list \<Rightarrow> string \<Rightarrow> related" where
  "joinPolicy d sel pid =
     (case find (\<lambda>p. InsurancePolicy.id p = pid) (policies d) of
        None \<Rightarrow> NoRelated
      | Some p \<Rightarrow> Related (map (\<lambda>f. (f, policy_field p f)) sel))"

definition joinClaim :: "db \<Rightarrow> field list \<Rightarrow> string \<Rightarrow> related" where
  "joinClaim d sel cid =
     (case find (\<lambda>c. Claim.id c = cid) (claims d) of
        None \<Rightarrow> NoRelated
      | Some c \<Rightarrow> Related (map (\<lambda>f. (f, claim_field c f)) sel))"

text \<open>
  What the service does to the store is recorded as a trace: every call it issues, and
  every \<^verbatim>\<open>await Promise.all([...])\<close> at which it waits for the calls issued so far.
\<close>

datatype model = InsurancePolicyModel | ClaimModel | DocumentModel

datatype store_call =
  FindMany model whereInput "(relation \<times> field list) list" int int
| Count model whereInput

datatype event = Issue store_call | AwaitAll

type_synonym 'a promise = "store_call \<times> (store_error + 'a)"

type_synonym 'a io = "(store_error + 'a) \<times> event list"

definition io_return :: "'a \<Rightarrow> 'a io" where
  "io_return x = (Inr x, [])"

definition io_bind :: "'a io \<Rightarrow> ('a \<Rightarrow> 'b io) \<Rightarrow> 'b io" where
  "io_bind m f =
     (case m of
        (Inl e, tr) \<Rightarrow> (Inl e, tr)
      | (Inr x, tr) \<Rightarrow> (case f x of (r, tr') \<Rightarrow> (r, tr @ tr')))"

text \<open>
  \<^verbatim>\<open>await Promise.all([p, q])\<close>: both calls are under way, the service waits for both, and
  a rejected call makes the \<^verbatim>\<open>await\<close> throw.
\<close>

definition awaitAll2 :: "'a promise \<Rightarrow> 'b promise \<Rightarrow> ('a \<times> 'b) io" where
  "awaitAll2 p q =
     ((case snd p of
         Inl e \<Rightarrow> Inl e
       | Inr a \<Rightarrow> (case snd q of Inl e \<Rightarrow> Inl e | Inr b \<Rightarrow> Inr (a, b))),
      [Issue (fst p), Issue (fst q), AwaitAll])"

definition insurancePolicy_findMany ::
  "db \<Rightarrow> whereInput \<Rightarrow> int \<Rightarrow> int \<Rightarrow> InsurancePolicy list promise" where
  "insurancePolicy_findMany d wh tk sk =
     (FindMany InsurancePolicyModel wh [] tk sk,
      findMany policy_field InsurancePolicy.updatedAt wh tk sk (policies d))"

definition insurancePolicy_count :: "db \<Rightarrow> whereInput \<Rightarrow> int promise" where
  "insurancePolicy_count d wh =
     (Count InsurancePolicyModel wh, Inr (count policy_field wh (policies d)))"

definition claim_findMany ::
  "db \<Rightarrow> whereInput \<Rightarrow> field list \<Rightarrow> int \<Rightarrow> int \<Rightarrow> (Claim \<times> related) list promise" where
  "claim_findMany d wh sel tk sk =
     (FindMany ClaimModel wh [(R_policy, sel)] tk sk,
      map_sum (\<lambda>e. e) (map (\<lambda>c. (c, joinPolicy d sel (Claim.policyId c))))
        (findMany claim_field Claim.updatedAt wh tk sk (claims d)))"

definition claim_count :: "db \<Rightarrow> whereInput \<Rightarrow> int promise" where
  "claim_count d wh = (Count ClaimModel wh, Inr (count claim_field wh (claims d)))"

definition document_findMany ::
  "db \<Rightarrow> whereInput \<Rightarrow> int \<Rightarrow> int \<Rightarrow> Document list promise" where
  "document_findMany d wh tk sk =
     (FindMany DocumentModel wh [] tk sk,
      findMany document_field Document.updatedAt wh tk sk (documents d))"

definition joinOpt :: "(string \<Rightarrow> related) \<Rightarrow> string option \<Rightarrow> related" where
  "joinOpt j k = (case k of None \<Rightarrow> NoRelated | Some x \<Rightarrow> j x)"

definition document_findMany_include ::
  "db \<Rightarrow> whereInput \<Rightarrow> field list \<Rightarrow> field list \<Rightarrow> int \<Rightarrow> int
     \<Rightarrow> (Document \<times> related \<times> related) list promise" where
  "document_findMany_include d wh psel csel tk sk =
     (FindMany DocumentModel wh [(R_policy, psel), (R_claim, csel)] tk sk,
      map_sum (\<lambda>e. e)
        (map (\<lambda>x. (x, joinOpt (joinPolicy d psel) (Document.policyId x),
                       joinOpt (joinClaim d csel) (Document.claimId x))))
        (findMany document_field Document.updatedAt wh tk sk (documents d)))"

definition document_count :: "db \<Rightarrow> whereInput \<Rightarrow> int promise" where
  "document_count d wh = (Count DocumentModel wh, Inr (count document_field wh (documents d)))"

section \<open>Global search\<close>

datatype SearchResultType = policy | claim | document

record SearchResult =
  id :: string
  type :: SearchResultType
  title :: string
  description :: string
  date :: int
  link :: string

record SearchOptions =
  query :: string
  userId :: string
  types :: "SearchResultType list option"
  limit :: "int option"
  page :: "int option"

record SearchResponse =
  results :: "SearchResult list"
  total :: int

text \<open>
  \<^verbatim>\<open>xs.slice(start, end)\<close> on integers: a negative index counts from the end, and both
  indices are clamped to the list.
\<close>

definition jsSlice :: "int \<Rightarrow> int \<Rightarrow> 'a list \<Rightarrow> 'a list" where
  "jsSlice start fin xs =
     (let len = int (length xs);
          k = (if start < 0 then max (len + start) 0 else min start len);
          e = (if fin < 0 then max (len + fin) 0 else min fin len)
      in take (nat (e - k)) (drop (nat k) xs))"

definition createSearchCondition :: "field \<Rightarrow> string list \<Rightarrow> whereC" where
  "createSearchCondition f terms =
     (if length terms = 1 then Field f (Contains (terms ! 0))
      else OR (map (\<lambda>t. Field f (Contains t)) terms))"

definition claimKeywords :: "string list" where
  "claimKeywords =
     [''approved'', ''rejected'', ''paid'', ''draft'', ''submitted'', ''review'', ''closed'']"

definition documentKeywords :: "string list" where
  "documentKeywords =
     [''policy'', ''claim'', ''identity'', ''proof'', ''estimate'', ''invoice'', ''receipt'',
      ''photo'']"

definition statusOfTerm :: "string \<Rightarrow> string" where
  "statusOfTerm t =
     (let upperTerm = toUpperCase t in
      if str_includes upperTerm ''APPROVED'' then ''APPROVED''
      else if str_includes upperTerm ''REJECTED'' then ''REJECTED''
      else if str_includes upperTerm ''PAID'' then ''PAID''
      else if str_includes upperTerm ''DRAFT'' then ''DRAFT''
      else if str_includes upperTerm ''SUBMITTED'' then ''SUBMITTED''
      else if str_includes upperTerm ''REVIEW'' then ''UNDER_REVIEW''
      else if str_includes upperTerm ''CLOSED'' then ''CLOSED''
      else ''DRAFT'')"

definition documentTypeOfTerm :: "string \<Rightarrow> string" where
  "documentTypeOfTerm t =
     (let upperTerm = toUpperCase t in
      if str_includes upperTerm ''POLICY'' then ''POLICY''
      else if str_includes upperTerm ''CLAIM'' then ''CLAIM''
      else if str_includes upperTerm ''IDENTITY'' then ''IDENTITY''
      else if str_includes upperTerm ''PROOF'' then ''PROOF_OF_LOSS''
      else if str_includes upperTerm ''ESTIMATE'' then ''ESTIMATE''
      else if str_includes upperTerm ''INVOICE'' then ''INVOICE''
      else if str_includes upperTerm ''RECEIPT'' then ''RECEIPT''
      else if str_includes upperTerm ''PHOTO'' then ''PHOTO''
      else ''OTHER'')"

text \<open>The \<^verbatim>\<open>where\<close> objects of the three kinds; the list and the count query share them.\<close>

definition policyWhere :: "string \<Rightarrow> string list \<Rightarrow> whereInput" where
  "policyWhere uid terms =
     [Field F_userId (Equals (VStr uid)),
      OR [createSearchCondition F_policyNumber terms,
          createSearchCondition F_provider terms,
          createSearchCondition F_description terms]]"

definition claimWhere :: "string \<Rightarrow> string list \<Rightarrow> whereInput" where
  "claimWhere uid terms =
     [Field F_userId (Equals (VStr uid)),
      OR ([createSearchCondition F_claimNumber terms,
           createSearchCondition F_description terms] @
          (if list_ex (matchKeywords claimKeywords) terms
           then [Field F_status
                   (In (map (\<lambda>t. VStr (statusOfTerm t))
                          (filter (matchKeywords claimKeywords) terms)))]
           else []))]"

definition documentWhere :: "string \<Rightarrow> string list \<Rightarrow> whereInput" where
  "documentWhere uid terms =
     [Field F_userId (Equals (VStr uid)),
      OR ([createSearchCondition F_fileName terms,
           createSearchCondition F_description terms] @
          (if list_ex (matchKeywords documentKeywords) terms
           then [Field F_documentType
                   (In (map (\<lambda>t. VStr (documentTypeOfTerm t))
                          (filter (matchKeywords documentKeywords) terms)))]
           else []))]"

text \<open>The search results built from the rows; \<^verbatim>\<open>x || y\<close> takes \<open>y\<close> for a null or empty \<open>x\<close>.\<close>

definition orElse :: "string option \<Rightarrow> string \<Rightarrow> string" where
  "orElse x y = (case x of None \<Rightarrow> y | Some s \<Rightarrow> if s = [] then y else s)"

definition policyResult :: "InsurancePolicy \<Rightarrow> SearchResult" where
  "policyResult p =
     \<lparr> SearchResult.id = InsurancePolicy.id p,
       type = policy,
       title = ''Policy #'' @ policyNumber p,
       description =
         orElse (InsurancePolicy.description p)
           (provider p @ '' - '' @ InsuranceType_name (insuranceType p)),
       date = InsurancePolicy.updatedAt p,
       link = ''/policies/'' @ InsurancePolicy.id p \<rparr>"

definition claimResult :: "Claim \<Rightarrow> SearchResult" where
  "claimResult c =
     \<lparr> SearchResult.id = Claim.id c,
       type = claim,
       title = ''Claim #'' @ claimNumber c,
       description =
         take 100 (Claim.description c) @
         (if length (Claim.description c) > 100 then ''...'' else []) @
         '' - '' @ ClaimStatus_name (status c),
       date = Claim.updatedAt c,
       link = ''/claims/'' @ Claim.id c \<rparr>"

text \<open>
  \<^verbatim>\<open>formatBytes\<close> renders a byte count with floating-point logarithms and rounding; it
  only feeds the description of a document without one, and is a parameter here.
\<close>

definition documentResult :: "(int \<Rightarrow> string) \<Rightarrow> Document \<Rightarrow> SearchResult" where
  "documentResult formatBytes x =
     \<lparr> SearchResult.id = Document.id x,
       type = document,
       title = fileName x,
       description =
         orElse (Document.description x)
           (DocumentType_name (documentType x) @ '' - '' @ formatBytes (fileSize x)),
       date = Document.updatedAt x,
       link = ''/documents/'' @ Document.id x \<rparr>"

text \<open>
  The three blocks of \<^verbatim>\<open>globalSearch\<close>, each run only when its kind is among \<^verbatim>\<open>types\<close>:
  issue the list and the count query, wait for both, append the results and add the count.
  The relation that \<^verbatim>\<open>include\<close> attaches to a claim is not read. After the blocks,
  \<^verbatim>\<open>results.sort((a, b) => b.date.getTime() - a.date.getTime())\<close> sorts by decreasing
  date; \<^verbatim>\<open>Array.prototype.sort\<close> is stable, as is \<^const>\<open>sort_key\<close>.
\<close>

definition searchPolicies ::
  "db \<Rightarrow> string \<Rightarrow> string list \<Rightarrow> SearchResultType list \<Rightarrow> int \<Rightarrow> int
     \<Rightarrow> SearchResult list \<times> int \<Rightarrow> (SearchResult list \<times> int) io" where
  "searchPolicies d uid searchTerms tys lmt skip st =
     (if policy \<in> set tys then
        io_bind
          (awaitAll2
             (insurancePolicy_findMany d (policyWhere uid searchTerms) lmt
                (if length tys = 1 then skip else 0))
             (insurancePolicy_count d (policyWhere uid searchTerms)))
          (\<lambda>(policies, policiesCount).
             io_return (fst st @ map policyResult policies, snd st + policiesCount))
      else io_return st)"

definition searchClaims ::
  "db \<Rightarrow> string \<Rightarrow> string list \<Rightarrow> SearchResultType list \<Rightarrow> int \<Rightarrow> int
     \<Rightarrow> SearchResult list \<times> int \<Rightarrow> (SearchResult list \<times> int) io" where
  "searchClaims d uid searchTerms tys lmt skip st =
     (if claim \<in> set tys then
        io_bind
          (awaitAll2
             (claim_findMany d (claimWhere uid searchTerms) [F_policyNumber] lmt
                (if length tys = 1 then skip else 0))
             (claim_count d (claimWhere uid searchTerms)))
          (\<lambda>(claims, claimsCount).
             io_return (fst st @ map (\<lambda>c. claimResult (fst c)) claims, snd st + claimsCount))
      else io_return st)"

definition searchDocuments ::
  "(int \<Rightarrow> string) \<Rightarrow> db \<Rightarrow> string \<Rightarrow> string list \<Rightarrow> SearchResultType list \<Rightarrow> int \<Rightarrow> int
     \<Rightarrow> SearchResult list \<times> int \<Rightarrow> (SearchResult list \<times> int) io" where
  "searchDocuments formatBytes d uid searchTerms tys lmt skip st =
     (if document \<in> set tys then
        io_bind
          (awaitAll2
             (document_findMany d (documentWhere uid searchTerms) lmt
                (if length tys = 1 then skip else 0))
             (document_count d (documentWhere uid searchTerms)))
          (\<lambda>(documents, documentsCount).
             io_return
               (fst st @ map (documentResult formatBytes) documents, snd st + documentsCount))
      else io_return st)"

definition typesOf :: "SearchOptions \<Rightarrow> SearchResultType list" where
  "typesOf opts = (case types opts of None \<Rightarrow> [policy, claim, document] | Some ts \<Rightarrow> ts)"

definition limitOf :: "SearchOptions \<Rightarrow> int" where
  "limitOf opts = (case limit opts of None \<Rightarrow> 20 | Some l \<Rightarrow> l)"

definition pageOf :: "SearchOptions \<Rightarrow> int" where
  "pageOf opts = (case page opts of None \<Rightarrow> 1 | Some p \<Rightarrow> p)"

definition skipOf :: "SearchOptions \<Rightarrow> int" where
  "skipOf opts = (pageOf opts - 1) * limitOf opts"

definition globalSearch :: "(int \<Rightarrow> string) \<Rightarrow> db \<Rightarrow> SearchOptions \<Rightarrow> SearchResponse io" where
  "globalSearch formatBytes d opts =
     (let tys = typesOf opts;
          lmt = limitOf opts;
          skip = skipOf opts;
          uid = SearchOptions.userId opts;
          searchTerms = searchTermsOf (query opts)
      in if length searchTerms = 0 then io_return \<lparr> results = [], total = 0 \<rparr>
         else
           io_bind (searchPolicies d uid searchTerms tys lmt skip ([], 0)) (\<lambda>st1.
           io_bind (searchClaims d uid searchTerms tys lmt skip st1) (\<lambda>st2.
           io_bind (searchDocuments formatBytes d uid searchTerms tys lmt skip st2) (\<lambda>st3.
             let sorted = sortDesc date (fst st3)
             in io_return
                  \<lparr> results =
                      (if length tys > 1 then jsSlice skip (skip + lmt) sorted else sorted),
                    total = snd st3 \<rparr>))))"

section \<open>Faceted filters\<close>

text \<open>
  The filter objects have optional members; a member that is \<^verbatim>\<open>undefined\<close> is \<open>None\<close>.
  The functions return the page of rows together with the total; \<^verbatim>\<open>page\<close> and
  \<^verbatim>\<open>pageSize\<close> default to 1 and 10.
\<close>

record PolicyFilters =
  insuranceType :: "string list option"
  provider :: "string list option"
  isActive :: "bool option"
  minAmount :: "rat option"
  maxAmount :: "rat option"
  startAfter :: "int option"
  endBefore :: "int option"

definition policyFiltersWhere :: "string \<Rightarrow> PolicyFilters \<Rightarrow> whereInput" where
  "policyFiltersWhere uid filters =
     [Field F_userId (Equals (VStr uid))] @
     (case PolicyFilters.insuranceType filters of
        Some ts \<Rightarrow> if length ts > 0 then [Field F_insuranceType (In (map VStr ts))] else []
      | None \<Rightarrow> []) @
     (case PolicyFilters.provider filters of
        Some ps \<Rightarrow> if length ps > 0 then [Field F_provider (In (map VStr ps))] else []
      | None \<Rightarrow> []) @
     (case PolicyFilters.isActive filters of
        Some b \<Rightarrow> [Field F_isActive (Equals (VBool b))]
      | None \<Rightarrow> []) @
     (if PolicyFilters.minAmount filters \<noteq> None \<or> PolicyFilters.maxAmount filters \<noteq> None
      then [Field F_coverageAmount
              (Range (map_option VNum (PolicyFilters.minAmount filters))
                     (map_option VNum (PolicyFilters.maxAmount filters)))]
      else []) @
     (case startAfter filters of
        Some a \<Rightarrow> [Field F_startDate (Range (Some (VDate a)) None)]
      | None \<Rightarrow> []) @
     (case endBefore filters of
        Some b \<Rightarrow> [Field F_endDate (Range None (Some (VDate b)))]
      | None \<Rightarrow> [])"

definition filterPolicies ::
  "db \<Rightarrow> string \<Rightarrow> PolicyFilters \<Rightarrow> int option \<Rightarrow> int option
     \<Rightarrow> (InsurancePolicy list \<times> int) io" where
  "filterPolicies d uid filters pageArg pageSizeArg =
     (let pg = (case pageArg of None \<Rightarrow> 1 | Some p \<Rightarrow> p);
          ps = (case pageSizeArg of None \<Rightarrow> 10 | Some n \<Rightarrow> n);
          wh = policyFiltersWhere uid filters;
          skip = (pg - 1) * ps
      in awaitAll2 (insurancePolicy_findMany d wh ps skip) (insurancePolicy_count d wh))"

record ClaimFilters =
  status :: "string list option"
  policyId :: "string option"
  incidentDateFrom :: "int option"
  incidentDateTo :: "int option"
  minAmount :: "rat option"
  maxAmount :: "rat option"

text \<open>\<^verbatim>\<open>if (filters.policyId)\<close> is false for the empty string as well.\<close>

definition claimFiltersWhere :: "string \<Rightarrow> ClaimFilters \<Rightarrow> whereInput" where
  "claimFiltersWhere uid filters =
     [Field F_userId (Equals (VStr uid))] @
     (case ClaimFilters.status filters of
        Some ss \<Rightarrow> if length ss > 0 then [Field F_status (In (map VStr ss))] else []
      | None \<Rightarrow> []) @
     (case ClaimFilters.policyId filters of
        Some pid \<Rightarrow> if pid \<noteq> [] then [Field F_policyId (Equals (VStr pid))] else []
      | None \<Rightarrow> []) @
     (if incidentDateFrom filters \<noteq> None \<or> incidentDateTo filters \<noteq> None
      then [Field F_incidentDate
              (Range (map_option VDate (incidentDateFrom filters))
                     (map_option VDate (incidentDateTo filters)))]
      else []) @
     (if ClaimFilters.minAmount filters \<noteq> None \<or> ClaimFilters.maxAmount filters \<noteq> None
      then [Field F_damageAmount
              (Range (map_option VNum (ClaimFilters.minAmount filters))
                     (map_option VNum (ClaimFilters.maxAmount filters)))]
      else [])"

definition filterClaims ::
  "db \<Rightarrow> string \<Rightarrow> ClaimFilters \<Rightarrow> int option \<Rightarrow> int option
     \<Rightarrow> ((Claim \<times> related) list \<times> int) io" where
  "filterClaims d uid filters pageArg pageSizeArg =
     (let pg = (case pageArg of None \<Rightarrow> 1 | Some p \<Rightarrow> p);
          ps = (case pageSizeArg of None \<Rightarrow> 10 | Some n \<Rightarrow> n);
          wh = claimFiltersWhere uid filters;
          skip = (pg - 1) * ps
      in awaitAll2
           (claim_findMany d wh [F_policyNumber, F_provider, F_insuranceType] ps skip)
           (claim_count d wh))"

record DocumentFilters =
  documentType :: "string list option"
  policyId :: "string option"
  claimId :: "string option"
  uploadDateFrom :: "int option"
  uploadDateTo :: "int option"
  isAnalyzed :: "bool option"

definition documentFiltersWhere :: "string \<Rightarrow> DocumentFilters \<Rightarrow> whereInput" where
  "documentFiltersWhere uid filters =
     [Field F_userId (Equals (VStr uid))] @
     (case DocumentFilters.documentType filters of
        Some ts \<Rightarrow> if length ts > 0 then [Field F_documentType (In (map VStr ts))] else []
      | None \<Rightarrow> []) @
     (case DocumentFilters.policyId filters of
        Some pid \<Rightarrow> if pid \<noteq> [] then [Field F_policyId (Equals (VStr pid))] else []
      | None \<Rightarrow> []) @
     (case DocumentFilters.claimId filters of
        Some cid \<Rightarrow> if cid \<noteq> [] then [Field F_claimId (Equals (VStr cid))] else []
      | None \<Rightarrow> []) @
     (case DocumentFilters.isAnalyzed filters of
        Some b \<Rightarrow> [Field F_isAnalyzed (Equals (VBool b))]
      | None \<Rightarrow> []) @
     (if uploadDateFrom filters \<noteq> None \<or> uploadDateTo filters \<noteq> None
      then [Field F_uploadDate
              (Range (map_option VDate (uploadDateFrom filters))
                     (map_option VDate (uploadDateTo filters)))]
      else [])"

definition filterDocuments ::
  "db \<Rightarrow> string \<Rightarrow> DocumentFilters \<Rightarrow> int option \<Rightarrow> int option
     \<Rightarrow> ((Document \<times> related \<times> related) list \<times> int) io" where
  "filterDocuments d uid filters pageArg pageSizeArg =
     (let pg = (case pageArg of None \<Rightarrow> 1 | Some p \<Rightarrow> p);
          ps = (case pageSizeArg of None \<Rightarrow> 10 | Some n \<Rightarrow> n);
          wh = documentFiltersWhere uid filters;
          skip = (pg - 1) * ps
      in awaitAll2
           (document_findMany_include d wh [F_policyNumber] [F_claimNumber] ps skip)
           (document_count d wh))"

section \<open>Notions used to state the properties\<close>

subsection \<open>Matching\<close>

text \<open>
  A term occurs in a text, letter case ignored: some contiguous piece of the text equals
  the term once both are put in lower case.
\<close>

definition occursIn :: "string \<Rightarrow> string \<Rightarrow> bool" where
  "occursIn t s = (\<exists>pre mid post. s = pre @ mid @ post \<and> toLowerCase mid = toLowerCase t)"

text \<open>Some term occurs in some designated text field of the record.\<close>

definition policyTextMatch :: "string list \<Rightarrow> InsurancePolicy \<Rightarrow> bool" where
  "policyTextMatch terms p =
     (\<exists>t\<in>set terms.
        occursIn t (policyNumber p) \<or> occursIn t (InsurancePolicy.provider p) \<or>
        (\<exists>s. InsurancePolicy.description p = Some s \<and> occursIn t s))"

definition claimTextMatch :: "string list \<Rightarrow> Claim \<Rightarrow> bool" where
  "claimTextMatch terms c =
     (\<exists>t\<in>set terms. occursIn t (claimNumber c) \<or> occursIn t (Claim.description c))"

definition documentTextMatch :: "string list \<Rightarrow> Document \<Rightarrow> bool" where
  "documentTextMatch terms x =
     (\<exists>t\<in>set terms.
        occursIn t (fileName x) \<or> (\<exists>s. Document.description x = Some s \<and> occursIn t s))"

text \<open>
  The inferred condition of a kind: the record's status (category) is one of the values
  inferred from the terms that match the kind's keywords.
\<close>

definition inferredStatuses :: "string list \<Rightarrow> string list" where
  "inferredStatuses terms = map statusOfTerm (filter (matchKeywords claimKeywords) terms)"

definition inferredDocumentTypes :: "string list \<Rightarrow> string list" where
  "inferredDocumentTypes terms =
     map documentTypeOfTerm (filter (matchKeywords documentKeywords) terms)"

definition claimInferred :: "string list \<Rightarrow> Claim \<Rightarrow> bool" where
  "claimInferred terms c = (ClaimStatus_name (Claim.status c) \<in> set (inferredStatuses terms))"

definition documentInferred :: "string list \<Rightarrow> Document \<Rightarrow> bool" where
  "documentInferred terms x =
     (DocumentType_name (Document.documentType x) \<in> set (inferredDocumentTypes terms))"

text \<open>The queries of claims and documents as they would be without keyword inference.\<close>

definition claimTextWhere :: "string \<Rightarrow> string list \<Rightarrow> whereInput" where
  "claimTextWhere uid terms =
     [Field F_userId (Equals (VStr uid)),
      OR [createSearchCondition F_claimNumber terms,
          createSearchCondition F_description terms]]"

definition documentTextWhere :: "string \<Rightarrow> string list \<Rightarrow> whereInput" where
  "documentTextWhere uid terms =
     [Field F_userId (Equals (VStr uid)),
      OR [createSearchCondition F_fileName terms,
          createSearchCondition F_description terms]]"

subsection \<open>The search of one kind\<close>

text \<open>The search predicate of a kind is the \<^verbatim>\<open>where\<close> object of its queries, evaluated.\<close>

definition policyMatches :: "string \<Rightarrow> string list \<Rightarrow> InsurancePolicy \<Rightarrow> bool" where
  "policyMatches uid terms p = where_all (policy_field p) (policyWhere uid terms)"

definition claimMatches :: "string \<Rightarrow> string list \<Rightarrow> Claim \<Rightarrow> bool" where
  "claimMatches uid terms c = where_all (claim_field c) (claimWhere uid terms)"

definition documentMatches :: "string \<Rightarrow> string list \<Rightarrow> Document \<Rightarrow> bool" where
  "documentMatches uid terms x = where_all (document_field x) (documentWhere uid terms)"

text \<open>The number of records of a kind that satisfy its search predicate.\<close>

fun kindCount :: "db \<Rightarrow> string \<Rightarrow> string list \<Rightarrow> SearchResultType \<Rightarrow> int" where
  "kindCount d uid terms policy = int (length (filter (policyMatches uid terms) (policies d)))"
| "kindCount d uid terms claim = int (length (filter (claimMatches uid terms) (claims d)))"
| "kindCount d uid terms document =
     int (length (filter (documentMatches uid terms) (documents d)))"

text \<open>All matches of a kind as search results, last modified first.\<close>

fun kindHits ::
  "(int \<Rightarrow> string) \<Rightarrow> db \<Rightarrow> string \<Rightarrow> string list \<Rightarrow> SearchResultType \<Rightarrow> SearchResult list"
  where
  "kindHits fb d uid terms policy =
     map policyResult
       (sortDesc InsurancePolicy.updatedAt (filter (policyMatches uid terms) (policies d)))"
| "kindHits fb d uid terms claim =
     map claimResult (sortDesc Claim.updatedAt (filter (claimMatches uid terms) (claims d)))"
| "kindHits fb d uid terms document =
     map (documentResult fb)
       (sortDesc Document.updatedAt (filter (documentMatches uid terms) (documents d)))"

text \<open>The store calls of one kind's block, with the \<^verbatim>\<open>await\<close> that ends it.\<close>

fun kindTrace :: "string \<Rightarrow> string list \<Rightarrow> int \<Rightarrow> int \<Rightarrow> SearchResultType \<Rightarrow> event list" where
  "kindTrace uid terms tk sk policy =
     [Issue (FindMany InsurancePolicyModel (policyWhere uid terms) [] tk sk),
      Issue (Count InsurancePolicyModel (policyWhere uid terms)), AwaitAll]"
| "kindTrace uid terms tk sk claim =
     [Issue (FindMany ClaimModel (claimWhere uid terms) [(R_policy, [F_policyNumber])] tk sk),
      Issue (Count ClaimModel (claimWhere uid terms)), AwaitAll]"
| "kindTrace uid terms tk sk document =
     [Issue (FindMany DocumentModel (documentWhere uid terms) [] tk sk),
      Issue (Count DocumentModel (documentWhere uid terms)), AwaitAll]"

text \<open>The \<^verbatim>\<open>skip\<close> that reaches the store: the page offset for a single entry in \<^verbatim>\<open>types\<close>.\<close>

definition storeSkip :: "SearchOptions \<Rightarrow> int" where
  "storeSkip opts = (if length (typesOf opts) = 1 then skipOf opts else 0)"

text \<open>What the requested kinds contribute, in the order policy, claim, document.\<close>

definition requested :: "SearchResultType list \<Rightarrow> (SearchResultType \<Rightarrow> 'a list) \<Rightarrow> 'a list" where
  "requested tys f =
     concat (map (\<lambda>k. if k \<in> set tys then f k else []) [policy, claim, document])"

text \<open>A list of search results is ordered last modified first.\<close>

definition newestFirst :: "SearchResult list \<Rightarrow> bool" where
  "newestFirst rs = sorted_wrt (\<lambda>a b. date b \<le> date a) rs"

text \<open>
  \<open>ys\<close> is \<open>xs\<close> sorted by date, newest first, with a stable sort: \<open>ys\<close> is ordered, and
  for every date that occurs its results of that date are those of \<open>xs\<close>, in the order
  they have there.
\<close>

definition stableNewestFirst :: "SearchResult list \<Rightarrow> SearchResult list \<Rightarrow> bool" where
  "stableNewestFirst xs ys =
     (newestFirst ys \<and>
      list_all (\<lambda>t. filter (\<lambda>r. date r = t) ys = filter (\<lambda>r. date r = t) xs)
        (map date (xs @ ys)))"

subsection \<open>Ownership\<close>

text \<open>The records of one user, and the store calls that carry the user's scope.\<close>

definition userView :: "string \<Rightarrow> db \<Rightarrow> db" where
  "userView uid d =
     \<lparr> policies = filter (\<lambda>p. InsurancePolicy.userId p = uid) (policies d),
       claims = filter (\<lambda>c. Claim.userId c = uid) (claims d),
       documents = filter (\<lambda>x. Document.userId x = uid) (documents d) \<rparr>"

fun call_where :: "store_call \<Rightarrow> whereInput" where
  "call_where (FindMany m wh inc tk sk) = wh"
| "call_where (Count m wh) = wh"

definition userScoped :: "string \<Rightarrow> event list \<Rightarrow> bool" where
  "userScoped uid tr =
     list_all (\<lambda>e. case e of
                  Issue c \<Rightarrow> Field F_userId (Equals (VStr uid)) \<in> set (call_where c)
                | AwaitAll \<Rightarrow> True) tr"

text \<open>Ids are primary keys: no table holds two records of the same id.\<close>

definition uniqueIds :: "db \<Rightarrow> bool" where
  "uniqueIds d =
     (distinct (map InsurancePolicy.id (policies d)) \<and>
      distinct (map Claim.id (claims d)) \<and>
      distinct (map Document.id (documents d)))"

text \<open>
  The parents of the user's claims and documents are the user's own: whatever policy or
  claim carries the id that such a record names belongs to the user. The routes that
  create and update claims and documents check this before they write.
\<close>

definition ownParents :: "string \<Rightarrow> db \<Rightarrow> bool" where
  "ownParents uid d =
     ((\<forall>c\<in>set (claims d). Claim.userId c = uid \<longrightarrow>
         (\<forall>p\<in>set (policies d).
            InsurancePolicy.id p = Claim.policyId c \<longrightarrow> InsurancePolicy.userId p = uid)) \<and>
      (\<forall>x\<in>set (documents d). Document.userId x = uid \<longrightarrow>
         (\<forall>p\<in>set (policies d).
            Document.policyId x = Some (InsurancePolicy.id p) \<longrightarrow> InsurancePolicy.userId p = uid) \<and>
         (\<forall>c\<in>set (claims d).
            Document.claimId x = Some (Claim.id c) \<longrightarrow> Claim.userId c = uid)))"

subsection \<open>Policy filters\<close>

text \<open>The page and the page size of a filter call, with the defaults 1 and 10.\<close>

definition pageArgOf :: "int option \<Rightarrow> int" where
  "pageArgOf x = (case x of None \<Rightarrow> 1 | Some p \<Rightarrow> p)"

definition pageSizeArgOf :: "int option \<Rightarrow> int" where
  "pageSizeArgOf x = (case x of None \<Rightarrow> 10 | Some n \<Rightarrow> n)"

text \<open>
  The constraints of a policy filter, each read as section 4.5 of the specification words
  it: membership in the allowed list, equality, inclusive bounds; an absent member imposes
  nothing.
\<close>

definition policySatisfiesSupplied :: "PolicyFilters \<Rightarrow> InsurancePolicy \<Rightarrow> bool" where
  "policySatisfiesSupplied filters p =
     ((case PolicyFilters.insuranceType filters of
         None \<Rightarrow> True
       | Some ts \<Rightarrow> InsuranceType_name (InsurancePolicy.insuranceType p) \<in> set ts) \<and>
      (case PolicyFilters.provider filters of
         None \<Rightarrow> True
       | Some ps \<Rightarrow> InsurancePolicy.provider p \<in> set ps) \<and>
      (case PolicyFilters.isActive filters of
         None \<Rightarrow> True
       | Some b \<Rightarrow> InsurancePolicy.isActive p = b) \<and>
      (case PolicyFilters.minAmount filters of None \<Rightarrow> True | Some lo \<Rightarrow> lo \<le> coverageAmount p) \<and>
      (case PolicyFilters.maxAmount filters of None \<Rightarrow> True | Some hi \<Rightarrow> coverageAmount p \<le> hi) \<and>
      (case startAfter filters of None \<Rightarrow> True | Some a \<Rightarrow> a \<le> startDate p) \<and>
      (case endBefore filters of None \<Rightarrow> True | Some b \<Rightarrow> endDate p \<le> b))"

text \<open>The same, with a list constraint counted as supplied only when the list is not empty.\<close>

definition policySatisfies :: "PolicyFilters \<Rightarrow> InsurancePolicy \<Rightarrow> bool" where
  "policySatisfies filters p =
     ((case PolicyFilters.insuranceType filters of
         None \<Rightarrow> True
       | Some ts \<Rightarrow> ts = [] \<or> InsuranceType_name (InsurancePolicy.insuranceType p) \<in> set ts) \<and>
      (case PolicyFilters.provider filters of
         None \<Rightarrow> True
       | Some ps \<Rightarrow> ps = [] \<or> InsurancePolicy.provider p \<in> set ps) \<and>
      (case PolicyFilters.isActive filters of
         None \<Rightarrow> True
       | Some b \<Rightarrow> InsurancePolicy.isActive p = b) \<and>
      (case PolicyFilters.minAmount filters of None \<Rightarrow> True | Some lo \<Rightarrow> lo \<le> coverageAmount p) \<and>
      (case PolicyFilters.maxAmount filters of None \<Rightarrow> True | Some hi \<Rightarrow> coverageAmount p \<le> hi) \<and>
      (case startAfter filters of None \<Rightarrow> True | Some a \<Rightarrow> a \<le> startDate p) \<and>
      (case endBefore filters of None \<Rightarrow> True | Some b \<Rightarrow> endDate p \<le> b))"

subsection \<open>The order of calls\<close>

text \<open>
  Fan-out and fan-in: every call of the trace is issued before the service waits for
  the first time.
\<close>

fun isIssue :: "event \<Rightarrow> bool" where
  "isIssue (Issue c) = True"
| "isIssue AwaitAll = False"

definition fanOutFanIn :: "event list \<Rightarrow> bool" where
  "fanOutFanIn tr = list_all (\<lambda>e. \<not> isIssue e) (dropWhile isIssue tr)"

section \<open>Sample data\<close>

text \<open>
  The records of the service's unit tests: a policy, a claim and a document of
  \<^verbatim>\<open>test-user\<close>, last updated on the first three days of 2023, each with the word
  ``damage'' in its description.
\<close>

definition sampleFormatBytes :: "int \<Rightarrow> string" where
  "sampleFormatBytes n = (if n = 0 then ''0 Bytes'' else ''1 KB'')"

definition samplePolicy :: InsurancePolicy where
  "samplePolicy =
     \<lparr> InsurancePolicy.id = ''policy-1'', policyNumber = ''POL-001'', InsurancePolicy.userId = ''test-user'',
       InsurancePolicy.insuranceType = HOME, InsurancePolicy.provider = ''Insurance Co'', coverageAmount = 250000,
       premium = 1200, startDate = 1640995200000, endDate = 1704067200000,
       InsurancePolicy.isActive = True,
       InsurancePolicy.description = Some ''Home insurance, storm damage included'',
       InsurancePolicy.createdAt = 1640995200000, InsurancePolicy.updatedAt = 1672531200000 \<rparr>"

definition sampleClaim :: Claim where
  "sampleClaim =
     \<lparr> Claim.id = ''claim-1'', claimNumber = ''CLM-001'', Claim.userId = ''test-user'',
       Claim.policyId = ''policy-1'', Claim.status = APPROVED, incidentDate = 1672000000000,
       reportDate = 1672100000000, Claim.description = ''Water damage claim'',
       damageAmount = Some 5000, approvedAmount = None, rejectionReason = None,
       Claim.createdAt = 1672100000000, Claim.updatedAt = 1672617600000 \<rparr>"

definition sampleDocument :: Document where
  "sampleDocument =
     \<lparr> Document.id = ''doc-1'', fileName = ''water-damage.jpg'', fileKey = ''uploads/doc-1'',
       fileType = ''image/jpeg'', fileSize = 1024, Document.documentType = PHOTO,
       uploadDate = 1672704000000, Document.description = Some ''Photo of water damage'',
       Document.userId = ''test-user'', Document.policyId = Some ''policy-1'',
       Document.claimId = Some ''claim-1'', extractedData = None, Document.isAnalyzed = False,
       Document.createdAt = 1672704000000, Document.updatedAt = 1672704000000 \<rparr>"

definition sampleDb :: db where
  "sampleDb = \<lparr> policies = [samplePolicy], claims = [sampleClaim], documents = [sampleDocument] \<rparr>"

definition damageSearch :: SearchOptions where
  "damageSearch =
     \<lparr> query = ''damage'', SearchOptions.userId = ''test-user'', types = None, limit = None, page = None \<rparr>"

definition blankSearch :: SearchOptions where
  "blankSearch =
     \<lparr> query = [CHR 0x20, CHR 0x09, CHR 0xA0], SearchOptions.userId = ''test-user'', types = None,
       limit = None, page = None \<rparr>"

definition approvedSearch :: SearchOptions where
  "approvedSearch =
     \<lparr> query = ''approved'', SearchOptions.userId = ''test-user'', types = Some [claim], limit = None,
       page = None \<rparr>"

text \<open>A second claim of the same user, and a search that names the kind claim twice.\<close>

definition secondClaim :: Claim where
  "secondClaim =
     \<lparr> Claim.id = ''claim-2'', claimNumber = ''CLM-002'', Claim.userId = ''test-user'',
       Claim.policyId = ''policy-1'', Claim.status = SUBMITTED, incidentDate = 1671000000000,
       reportDate = 1671100000000, Claim.description = ''Roof damage after storm'',
       damageAmount = None, approvedAmount = None, rejectionReason = None,
       Claim.createdAt = 1671100000000, Claim.updatedAt = 1672531200000 \<rparr>"

definition twoClaimsDb :: db where
  "twoClaimsDb =
     \<lparr> policies = [samplePolicy], claims = [sampleClaim, secondClaim], documents = [] \<rparr>"

definition claimTwiceSearch :: SearchOptions where
  "claimTwiceSearch =
     \<lparr> query = ''damage'', SearchOptions.userId = ''test-user'', types = Some [claim, claim],
       limit = Some 1, page = Some 2 \<rparr>"

definition claimOnceSearch :: SearchOptions where
  "claimOnceSearch =
     \<lparr> query = ''damage'', SearchOptions.userId = ''test-user'', types = Some [claim],
       limit = Some 1, page = Some 1 \<rparr>"

definition claimOncePageTwoSearch :: SearchOptions where
  "claimOncePageTwoSearch =
     \<lparr> query = ''damage'', SearchOptions.userId = ''test-user'', types = Some [claim],
       limit = Some 1, page = Some 2 \<rparr>"

text \<open>Records of another user: two versions of one policy.\<close>

definition othersPolicy :: InsurancePolicy where
  "othersPolicy =
     \<lparr> InsurancePolicy.id = ''policy-9'', policyNumber = ''POL-900'', InsurancePolicy.userId = ''other-user'',
       InsurancePolicy.insuranceType = AUTO, InsurancePolicy.provider = ''Acme Mutual'', coverageAmount = 40000,
       premium = 800, startDate = 1640995200000, endDate = 1704067200000,
       InsurancePolicy.isActive = True, InsurancePolicy.description = Some ''Car damage cover'',
       InsurancePolicy.createdAt = 1640995200000, InsurancePolicy.updatedAt = 1672790400000 \<rparr>"

definition othersPolicyChanged :: InsurancePolicy where
  "othersPolicyChanged = othersPolicy \<lparr> InsurancePolicy.provider := ''Zenith Assurance'' \<rparr>"

definition sharedDb :: db where
  "sharedDb = sampleDb \<lparr> policies := [othersPolicy, samplePolicy] \<rparr>"

definition sharedDbChanged :: db where
  "sharedDbChanged = sampleDb \<lparr> policies := [othersPolicyChanged, samplePolicy] \<rparr>"

text \<open>A claim of \<^verbatim>\<open>test-user\<close> that names the other user's policy as its parent.\<close>

definition strayClaim :: Claim where
  "strayClaim = sampleClaim \<lparr> Claim.id := ''claim-7'', Claim.policyId := ''policy-9'' \<rparr>"

definition strayDb :: db where
  "strayDb = \<lparr> policies = [othersPolicy], claims = [strayClaim], documents = [] \<rparr>"

definition strayDbChanged :: db where
  "strayDbChanged = \<lparr> policies = [othersPolicyChanged], claims = [strayClaim], documents = [] \<rparr>"

definition noClaimFilters :: ClaimFilters where
  "noClaimFilters =
     \<lparr> ClaimFilters.status = None, ClaimFilters.policyId = None, incidentDateFrom = None,
       incidentDateTo = None, ClaimFilters.minAmount = None, ClaimFilters.maxAmount = None \<rparr>"

definition noDocumentFilters :: DocumentFilters where
  "noDocumentFilters =
     \<lparr> DocumentFilters.documentType = None, DocumentFilters.policyId = None,
       DocumentFilters.claimId = None, uploadDateFrom = None, uploadDateTo = None,
       DocumentFilters.isAnalyzed = None \<rparr>"

text \<open>The policy filter of the unit test, and one whose list of types is empty.\<close>

definition homeFilters :: PolicyFilters where
  "homeFilters =
     \<lparr> PolicyFilters.insuranceType = Some [''HOME''],
       PolicyFilters.provider = Some [''Insurance Co''], PolicyFilters.isActive = Some True,
       PolicyFilters.minAmount = Some 100000, PolicyFilters.maxAmount = Some 500000,
       startAfter = None, endBefore = None \<rparr>"

definition emptyTypeFilters :: PolicyFilters where
  "emptyTypeFilters =
     \<lparr> PolicyFilters.insuranceType = Some [], PolicyFilters.provider = None,
       PolicyFilters.isActive = None, PolicyFilters.minAmount = None,
       PolicyFilters.maxAmount = None, startAfter = None, endBefore = None \<rparr>"

section \<open>The tokenizer\<close>

lemma dropWhile_all_whitespace:
  "\<forall>c\<in>set q. isWhitespace c \<Longrightarrow> dropWhile isWhitespace q = []"
  by (induction q) auto

lemma searchTermsOf_whitespace_only:
  "\<forall>c\<in>set q. isWhitespace c \<Longrightarrow> searchTermsOf q = []"
  by (simp add: searchTermsOf_def trim_def dropWhile_all_whitespace)

lemma splitWhitespace_nonempty: "splitWhitespace s \<noteq> []"
  by (induction s rule: splitWhitespace.induct) (auto split: list.splits)

lemma splitWhitespace_head:
  "s \<noteq> [] \<Longrightarrow> \<not> isWhitespace (hd s) \<Longrightarrow> hd (splitWhitespace s) \<noteq> []"
  by (cases s) (auto split: list.splits)

lemma trim_head:
  assumes "\<exists>c\<in>set q. \<not> isWhitespace c"
  shows "trim q \<noteq> [] \<and> \<not> isWhitespace (hd (trim q))"
proof -
  let ?a = "dropWhile isWhitespace q"
  from assms have a: "?a \<noteq> []"
    by (simp add: dropWhile_eq_Nil_conv)
  then have ha: "\<not> isWhitespace (hd ?a)"
    using hd_dropWhile by metis
  obtain c cs where acs: "?a = c # cs"
    using a by (cases ?a) auto
  with ha have c: "\<not> isWhitespace c"
    by simp
  have "rev ?a = rev cs @ [c]"
    using acs by simp
  then have "dropWhile isWhitespace (rev ?a) = dropWhile isWhitespace (rev cs) @ [c]"
    using c by (simp add: dropWhile_append)
  then have "trim q = c # rev (dropWhile isWhitespace (rev cs))"
    by (simp add: trim_def)
  with c show ?thesis
    by simp
qed

lemma searchTermsOf_empty_iff:
  "searchTermsOf q = [] \<longleftrightarrow> (\<forall>c\<in>set q. isWhitespace c)"
proof
  assume e: "searchTermsOf q = []"
  show "\<forall>c\<in>set q. isWhitespace c"
  proof (rule ccontr)
    assume "\<not> (\<forall>c\<in>set q. isWhitespace c)"
    then have "\<exists>c\<in>set q. \<not> isWhitespace c"
      by simp
    from trim_head[OF this] have h: "hd (splitWhitespace (trim q)) \<noteq> []"
      using splitWhitespace_head by blast
    have "hd (splitWhitespace (trim q)) \<in> set (splitWhitespace (trim q))"
      using splitWhitespace_nonempty by simp
    with h have "filter (\<lambda>t. t \<noteq> []) (splitWhitespace (trim q)) \<noteq> []"
      by (auto simp: filter_empty_conv)
    with e show False
      by (simp add: searchTermsOf_def)
  qed
next
  assume "\<forall>c\<in>set q. isWhitespace c"
  then show "searchTermsOf q = []"
    by (rule searchTermsOf_whitespace_only)
qed

section \<open>Conditions and what they mean\<close>

lemma startsWith_iff: "startsWith s t \<longleftrightarrow> (\<exists>post. s = t @ post)"
  by (induction s t rule: startsWith.induct) auto

lemma str_includes_iff: "str_includes s t \<longleftrightarrow> (\<exists>pre post. s = pre @ t @ post)"
proof (induction s)
  case Nil
  then show ?case
    by auto
next
  case (Cons a s)
  show ?case
  proof
    assume "str_includes (a # s) t"
    then consider "startsWith (a # s) t" | "str_includes s t"
      by auto
    then show "\<exists>pre post. a # s = pre @ t @ post"
    proof cases
      case 1
      then obtain post where "a # s = t @ post"
        by (auto simp: startsWith_iff)
      then have "a # s = [] @ t @ post"
        by simp
      then show ?thesis
        by blast
    next
      case 2
      then obtain pre post where "s = pre @ t @ post"
        using Cons.IH by auto
      then have "a # s = (a # pre) @ t @ post"
        by simp
      then show ?thesis
        by blast
    qed
  next
    assume "\<exists>pre post. a # s = pre @ t @ post"
    then obtain pre post where e: "a # s = pre @ t @ post"
      by auto
    show "str_includes (a # s) t"
    proof (cases pre)
      case Nil
      with e have "startsWith (a # s) t"
        by (auto simp: startsWith_iff)
      then show ?thesis
        by simp
    next
      case (Cons b pre')
      with e have "s = pre' @ t @ post"
        by simp
      then have "str_includes s t"
        using Cons.IH by auto
      then show ?thesis
        by simp
    qed
  qed
qed

lemma contains_occursIn:
  "str_includes (toLowerCase s) (toLowerCase t) \<longleftrightarrow> occursIn t s"
proof
  assume "str_includes (toLowerCase s) (toLowerCase t)"
  then obtain pre post where "map toLowerChar s = pre @ toLowerCase t @ post"
    by (auto simp: str_includes_iff toLowerCase_def)
  then obtain s1 s23 where s: "s = s1 @ s23" and "map toLowerChar s23 = toLowerCase t @ post"
    by (metis map_eq_append_conv)
  then obtain s2 s3 where "s23 = s2 @ s3" and "map toLowerChar s2 = toLowerCase t"
    by (metis map_eq_append_conv)
  with s have "s = s1 @ s2 @ s3 \<and> toLowerCase s2 = toLowerCase t"
    by (simp add: toLowerCase_def)
  then show "occursIn t s"
    unfolding occursIn_def by blast
next
  assume "occursIn t s"
  then obtain pre mid post where "s = pre @ mid @ post" and "toLowerCase mid = toLowerCase t"
    unfolding occursIn_def by blast
  then have "toLowerCase s = toLowerCase pre @ toLowerCase t @ toLowerCase post"
    by (simp add: toLowerCase_def)
  then show "str_includes (toLowerCase s) (toLowerCase t)"
    unfolding str_includes_iff by blast
qed

lemma createSearchCondition_holds:
  "where_holds g (createSearchCondition f terms)
     \<longleftrightarrow> (\<exists>t\<in>set terms. cond_holds (Contains t) (g f))"
proof (cases "length terms = 1")
  case True
  then obtain t where "terms = [t]"
    by (cases terms) auto
  then show ?thesis
    by (simp add: createSearchCondition_def)
next
  case False
  then show ?thesis
    by (simp add: createSearchCondition_def list_ex_iff)
qed

lemma policyMatches_iff:
  "policyMatches uid terms p \<longleftrightarrow>
     InsurancePolicy.userId p = uid \<and> policyTextMatch terms p"
  by (cases "InsurancePolicy.description p")
     (auto simp: policyMatches_def policyWhere_def where_all_def createSearchCondition_holds
        policyTextMatch_def contains_occursIn optStr_def)

lemma claimTextWhere_iff:
  "where_all (claim_field c) (claimTextWhere uid terms) \<longleftrightarrow>
     Claim.userId c = uid \<and> claimTextMatch terms c"
  by (auto simp: claimTextWhere_def where_all_def createSearchCondition_holds
        claimTextMatch_def contains_occursIn)

lemma documentTextWhere_iff:
  "where_all (document_field x) (documentTextWhere uid terms) \<longleftrightarrow>
     Document.userId x = uid \<and> documentTextMatch terms x"
  by (cases "Document.description x")
     (auto simp: documentTextWhere_def where_all_def createSearchCondition_holds
        documentTextMatch_def contains_occursIn optStr_def)

lemma inferredStatuses_empty:
  "\<not> list_ex (matchKeywords claimKeywords) terms \<Longrightarrow> inferredStatuses terms = []"
  by (auto simp: inferredStatuses_def list_ex_iff filter_empty_conv)

lemma inferredDocumentTypes_empty:
  "\<not> list_ex (matchKeywords documentKeywords) terms \<Longrightarrow> inferredDocumentTypes terms = []"
  by (auto simp: inferredDocumentTypes_def list_ex_iff filter_empty_conv)

lemma claimMatches_iff:
  "claimMatches uid terms c \<longleftrightarrow>
     Claim.userId c = uid \<and> (claimTextMatch terms c \<or> claimInferred terms c)"
proof (cases "list_ex (matchKeywords claimKeywords) terms")
  case True
  then show ?thesis
    by (auto simp: claimMatches_def claimWhere_def where_all_def createSearchCondition_holds
        claimTextMatch_def claimInferred_def inferredStatuses_def contains_occursIn)
next
  case False
  then show ?thesis
    using inferredStatuses_empty[OF False]
    by (auto simp: claimMatches_def claimWhere_def where_all_def createSearchCondition_holds
        claimTextMatch_def claimInferred_def contains_occursIn)
qed

lemma documentMatches_iff:
  "documentMatches uid terms x \<longleftrightarrow>
     Document.userId x = uid \<and> (documentTextMatch terms x \<or> documentInferred terms x)"
proof (cases "list_ex (matchKeywords documentKeywords) terms")
  case True
  then show ?thesis
    by (cases "Document.description x")
       (auto simp: documentMatches_def documentWhere_def where_all_def
          createSearchCondition_holds documentTextMatch_def documentInferred_def
          inferredDocumentTypes_def contains_occursIn optStr_def)
next
  case False
  then show ?thesis
    using inferredDocumentTypes_empty[OF False]
    by (cases "Document.description x")
       (auto simp: documentMatches_def documentWhere_def where_all_def
          createSearchCondition_holds documentTextMatch_def documentInferred_def
          contains_occursIn optStr_def)
qed


section \<open>Ordering, windows and slices\<close>

lemma insort_key_map:
  "insort_key g (f x) (map f ys) = map f (insort_key (\<lambda>y. g (f y)) x ys)"
  by (induction ys) auto

lemma sortDesc_map: "sortDesc key (map f xs) = map f (sortDesc (\<lambda>x. key (f x)) xs)"
  by (induction xs) (auto simp: sortDesc_def insort_key_map)

lemma sortDesc_sorted: "sorted_wrt (\<lambda>a b. key b \<le> key a) (sortDesc key xs)"
proof -
  have "sorted (map (\<lambda>x. - key x) (sortDesc key xs))"
    by (simp add: sortDesc_def)
  then show ?thesis
    by (simp add: sorted_map)
qed

lemma sortDesc_stable:
  "filter (\<lambda>x. key x = t) (sortDesc key xs) = filter (\<lambda>x. key x = t) xs"
  using sort_key_stable[of "\<lambda>x. - key x" "- t" xs]
  by (simp add: sortDesc_def)

lemma sortDesc_id:
  assumes "sorted_wrt (\<lambda>a b. key b \<le> key a) xs"
  shows "sortDesc key xs = xs"
proof -
  from assms have "sorted (map (\<lambda>x. - key x) xs)"
    by (simp add: sorted_map)
  then show ?thesis
    unfolding sortDesc_def by (rule sort_key_id_if_sorted)
qed

lemma set_sortDesc: "set (sortDesc key xs) = set xs"
  by (simp add: sortDesc_def)

lemma length_sortDesc: "length (sortDesc key xs) = length xs"
  by (simp add: sortDesc_def)

lemma distinct_map_sortDesc:
  "distinct (map f (sortDesc key xs)) = distinct (map f xs)"
proof -
  have s: "set (map f (sortDesc key xs)) = set (map f xs)"
    by (simp add: set_sortDesc)
  have l: "length (map f (sortDesc key xs)) = length (map f xs)"
    by (simp add: length_sortDesc)
  show ?thesis
    using s l by (metis card_distinct distinct_card)
qed

lemma length_filter_mono:
  assumes "\<And>x. P x \<Longrightarrow> Q x"
  shows "length (filter P xs) \<le> length (filter Q xs)"
  using assms by (induction xs) auto

lemma sorted_wrt_take_drop:
  "sorted_wrt R xs \<Longrightarrow> sorted_wrt R (take n (drop k xs))"
  by (simp add: sorted_wrt_drop sorted_wrt_take)

lemma window_map: "window tk sk (map f xs) = map f (window tk sk xs)"
  by (simp add: window_def take_map drop_map rev_map)

lemma window_nonneg:
  "0 \<le> tk \<Longrightarrow> window tk sk xs = take (nat tk) (drop (nat sk) xs)"
  by (simp add: window_def)

lemma jsSlice_nonneg:
  assumes "0 \<le> a" and "0 \<le> n"
  shows "jsSlice a (a + n) xs = take (nat n) (drop (nat a) xs)"
proof -
  consider "a + n \<le> int (length xs)"
    | "a \<le> int (length xs)" "int (length xs) < a + n"
    | "int (length xs) < a"
    by linarith
  then show ?thesis
  proof cases
    case 1
    then show ?thesis
      using assms by (simp add: jsSlice_def Let_def min_absorb1)
  next
    case 2
    then have "length (drop (nat a) xs) \<le> nat n"
      using assms by simp
    then have "take (nat n) (drop (nat a) xs) = drop (nat a) xs"
      by (rule take_all)
    moreover have "nat (int (length xs) - a) = length (drop (nat a) xs)"
      using assms 2 by simp
    ultimately show ?thesis
      using assms 2 by (simp add: jsSlice_def Let_def min_absorb1 min_absorb2)
  next
    case 3
    then have "length xs \<le> nat a"
      by linarith
    then show ?thesis
      using assms 3 by (simp add: jsSlice_def Let_def min_absorb2)
  qed
qed

lemma disjoint_pages:
  assumes "distinct (map f xs)"
  shows "set (map f (take n (drop k xs))) \<inter> set (map f (take m (drop (k + n) xs))) = {}"
proof -
  let ?ys = "drop k xs"
  have d: "distinct (map f ?ys)"
    using assms by (simp add: distinct_drop drop_map[symmetric])
  have "map f ?ys = map f (take n ?ys) @ map f (drop n ?ys)"
    by (metis append_take_drop_id map_append)
  with d have disj: "set (map f (take n ?ys)) \<inter> set (map f (drop n ?ys)) = {}"
    by (metis distinct_append)
  have e: "drop (k + n) xs = drop n ?ys"
    by (simp add: add.commute)
  have "set (take m (drop n ?ys)) \<subseteq> set (drop n ?ys)"
    by (rule set_take_subset)
  then have "set (map f (take m (drop (k + n) xs))) \<subseteq> set (map f (drop n ?ys))"
    unfolding e by auto
  with disj show ?thesis
    by blast
qed

section \<open>The blocks of the global search\<close>

lemma policyMatches_eta:
  "(\<lambda>r. where_all (policy_field r) (policyWhere uid terms)) = policyMatches uid terms"
  by (simp add: fun_eq_iff policyMatches_def)

lemma claimMatches_eta:
  "(\<lambda>r. where_all (claim_field r) (claimWhere uid terms)) = claimMatches uid terms"
  by (simp add: fun_eq_iff claimMatches_def)

lemma documentMatches_eta:
  "(\<lambda>r. where_all (document_field r) (documentWhere uid terms)) = documentMatches uid terms"
  by (simp add: fun_eq_iff documentMatches_def)

lemma searchPolicies_eq:
  "searchPolicies d uid terms tys lmt skip st =
     (let sk = (if length tys = 1 then skip else 0) in
      if policy \<in> set tys then
        (if sk < 0 then Inl (InvalidSkip sk)
         else Inr (fst st @ window lmt sk (kindHits fb d uid terms policy),
                   snd st + kindCount d uid terms policy),
         kindTrace uid terms lmt sk policy)
      else (Inr st, []))"
  by (simp add: searchPolicies_def io_bind_def io_return_def awaitAll2_def
      insurancePolicy_findMany_def insurancePolicy_count_def findMany_def count_def
      window_map policyMatches_eta Let_def)

lemma searchClaims_eq:
  "searchClaims d uid terms tys lmt skip st =
     (let sk = (if length tys = 1 then skip else 0) in
      if claim \<in> set tys then
        (if sk < 0 then Inl (InvalidSkip sk)
         else Inr (fst st @ window lmt sk (kindHits fb d uid terms claim),
                   snd st + kindCount d uid terms claim),
         kindTrace uid terms lmt sk claim)
      else (Inr st, []))"
  by (simp add: searchClaims_def io_bind_def io_return_def awaitAll2_def
      claim_findMany_def claim_count_def findMany_def count_def
      window_map claimMatches_eta Let_def comp_def)

lemma searchDocuments_eq:
  "searchDocuments fb d uid terms tys lmt skip st =
     (let sk = (if length tys = 1 then skip else 0) in
      if document \<in> set tys then
        (if sk < 0 then Inl (InvalidSkip sk)
         else Inr (fst st @ window lmt sk (kindHits fb d uid terms document),
                   snd st + kindCount d uid terms document),
         kindTrace uid terms lmt sk document)
      else (Inr st, []))"
  by (simp add: searchDocuments_def io_bind_def io_return_def awaitAll2_def
      document_findMany_def document_count_def findMany_def count_def
      window_map documentMatches_eta Let_def)

text \<open>The global search in closed form, for a query with terms that the store accepts.\<close>

lemma globalSearch_ok:
  assumes "searchTermsOf (query opts) \<noteq> []" and "0 \<le> storeSkip opts"
  shows "globalSearch fb d opts =
     (Inr \<lparr> results =
             (let merged = sortDesc date
                (requested (typesOf opts)
                   (\<lambda>k. window (limitOf opts) (storeSkip opts)
                          (kindHits fb d (SearchOptions.userId opts)
                             (searchTermsOf (query opts)) k)))
              in if length (typesOf opts) > 1
                 then jsSlice (skipOf opts) (skipOf opts + limitOf opts) merged else merged),
            total = (\<Sum>k\<leftarrow>[policy, claim, document].
                       if k \<in> set (typesOf opts)
                       then kindCount d (SearchOptions.userId opts) (searchTermsOf (query opts)) k
                       else 0) \<rparr>,
      requested (typesOf opts)
        (kindTrace (SearchOptions.userId opts) (searchTermsOf (query opts)) (limitOf opts)
           (storeSkip opts)))"
  using assms
  unfolding globalSearch_def Let_def
    searchPolicies_eq[where fb=fb] searchClaims_eq[where fb=fb] searchDocuments_eq
  by (simp add: io_bind_def io_return_def requested_def storeSkip_def Let_def)

text \<open>The store rejects a negative offset, which only a single entry in \<^verbatim>\<open>types\<close> passes on.\<close>

lemma globalSearch_rejected:
  assumes "searchTermsOf (query opts) \<noteq> []" and "storeSkip opts < 0"
  shows "fst (globalSearch fb d opts) = Inl (InvalidSkip (skipOf opts))"
proof -
  from assms(2) have l: "length (typesOf opts) = 1" and s: "skipOf opts < 0"
    by (auto simp: storeSkip_def split: if_splits)
  then obtain k where k: "typesOf opts = [k]"
    by (cases "typesOf opts") auto
  show ?thesis
    using assms(1) s k
    unfolding globalSearch_def Let_def
      searchPolicies_eq[where fb=fb] searchClaims_eq[where fb=fb] searchDocuments_eq
    by (cases k) (simp_all add: io_bind_def io_return_def Let_def)
qed

lemma sum_requested:
  "(\<Sum>k\<leftarrow>[policy, claim, document]. if k \<in> set tys then f k else 0) = (\<Sum>k\<in>set tys. (f k :: int))"
proof -
  have u: "(UNIV :: SearchResultType set) = {policy, claim, document}"
    using SearchResultType.exhaust by auto
  have "finite (UNIV :: SearchResultType set)"
    unfolding u by simp
  from sum.inter_restrict[OF this, of f "set tys"]
  have "(\<Sum>k\<in>set tys. f k) = (\<Sum>k\<in>UNIV. if k \<in> set tys then f k else 0)"
    by simp
  also have "\<dots> = (\<Sum>k\<leftarrow>[policy, claim, document]. if k \<in> set tys then f k else 0)"
    unfolding u by simp
  finally show ?thesis
    by simp
qed


section \<open>The global search in closed form\<close>

lemma date_policyResult: "date (policyResult p) = InsurancePolicy.updatedAt p"
  by (simp add: policyResult_def)

lemma date_claimResult: "date (claimResult c) = Claim.updatedAt c"
  by (simp add: claimResult_def)

lemma date_documentResult: "date (documentResult fb x) = Document.updatedAt x"
  by (simp add: documentResult_def)

lemma id_policyResult: "SearchResult.id (policyResult p) = InsurancePolicy.id p"
  by (simp add: policyResult_def)

lemma id_claimResult: "SearchResult.id (claimResult c) = Claim.id c"
  by (simp add: claimResult_def)

lemma id_documentResult: "SearchResult.id (documentResult fb x) = Document.id x"
  by (simp add: documentResult_def)

lemma newestFirst_kindHits: "newestFirst (kindHits fb d uid terms k)"
  by (cases k)
     (simp_all add: newestFirst_def sorted_wrt_map date_policyResult date_claimResult
        date_documentResult sortDesc_sorted)

lemma newestFirst_take_drop: "newestFirst xs \<Longrightarrow> newestFirst (take n (drop k xs))"
  unfolding newestFirst_def by (rule sorted_wrt_take_drop)

lemma sortDesc_newestFirst: "newestFirst xs \<Longrightarrow> sortDesc date xs = xs"
  unfolding newestFirst_def by (rule sortDesc_id)

lemma stableNewestFirst_sortDesc: "stableNewestFirst xs (sortDesc date xs)"
  by (simp add: stableNewestFirst_def newestFirst_def sortDesc_sorted sortDesc_stable
        list_all_iff)

lemma distinct_ids_kindHits:
  assumes "uniqueIds d"
  shows "distinct (map SearchResult.id (kindHits fb d uid terms k))"
proof (cases k)
  case policy
  have "distinct (map InsurancePolicy.id (filter (policyMatches uid terms) (policies d)))"
    using assms by (simp add: uniqueIds_def distinct_map_filter)
  then show ?thesis
    using policy by (simp add: comp_def id_policyResult distinct_map_sortDesc)
next
  case claim
  have "distinct (map Claim.id (filter (claimMatches uid terms) (claims d)))"
    using assms by (simp add: uniqueIds_def distinct_map_filter)
  then show ?thesis
    using claim by (simp add: comp_def id_claimResult distinct_map_sortDesc)
next
  case document
  have "distinct (map Document.id (filter (documentMatches uid terms) (documents d)))"
    using assms by (simp add: uniqueIds_def distinct_map_filter)
  then show ?thesis
    using document by (simp add: comp_def id_documentResult distinct_map_sortDesc)
qed

lemma requested_single: "requested [k] f = f k"
  by (cases k) (simp_all add: requested_def)

lemma skipOf_nonneg: "1 \<le> pageOf opts \<Longrightarrow> 0 \<le> limitOf opts \<Longrightarrow> 0 \<le> skipOf opts"
  by (simp add: skipOf_def)

lemma next_page:
  "typesOf (opts\<lparr>page := Some (pageOf opts + 1)\<rparr>) = typesOf opts"
  "limitOf (opts\<lparr>page := Some (pageOf opts + 1)\<rparr>) = limitOf opts"
  "pageOf (opts\<lparr>page := Some (pageOf opts + 1)\<rparr>) = pageOf opts + 1"
  "skipOf (opts\<lparr>page := Some (pageOf opts + 1)\<rparr>) = skipOf opts + limitOf opts"
  "query (opts\<lparr>page := Some (pageOf opts + 1)\<rparr>) = query opts"
  "SearchOptions.userId (opts\<lparr>page := Some (pageOf opts + 1)\<rparr>) = SearchOptions.userId opts"
  by (simp_all add: typesOf_def limitOf_def pageOf_def skipOf_def algebra_simps)

text \<open>The search with one entry in \<^verbatim>\<open>types\<close>, in closed form.\<close>

lemma globalSearch_single:
  assumes "searchTermsOf (query opts) \<noteq> []" and "typesOf opts = [k]"
    and "1 \<le> pageOf opts" and "0 \<le> limitOf opts"
  shows "globalSearch fb d opts =
     (Inr \<lparr> results =
             take (nat (limitOf opts))
               (drop (nat (skipOf opts))
                  (kindHits fb d (SearchOptions.userId opts) (searchTermsOf (query opts)) k)),
            total = kindCount d (SearchOptions.userId opts) (searchTermsOf (query opts)) k \<rparr>,
      kindTrace (SearchOptions.userId opts) (searchTermsOf (query opts)) (limitOf opts)
        (skipOf opts) k)"
proof -
  have sk: "storeSkip opts = skipOf opts"
    using assms(2) by (simp add: storeSkip_def)
  have nn: "0 \<le> storeSkip opts"
    using sk skipOf_nonneg[OF assms(3,4)] by simp
  let ?H = "kindHits fb d (SearchOptions.userId opts) (searchTermsOf (query opts)) k"
  have "newestFirst (take (nat (limitOf opts)) (drop (nat (skipOf opts)) ?H))"
    by (rule newestFirst_take_drop) (rule newestFirst_kindHits)
  then have s: "sortDesc date (take (nat (limitOf opts)) (drop (nat (skipOf opts)) ?H))
                  = take (nat (limitOf opts)) (drop (nat (skipOf opts)) ?H)"
    by (rule sortDesc_newestFirst)
  have t: "(\<Sum>j\<in>set [k]. kindCount d (SearchOptions.userId opts) (searchTermsOf (query opts)) j)
             = kindCount d (SearchOptions.userId opts) (searchTermsOf (query opts)) k"
    by simp
  show ?thesis
    unfolding globalSearch_ok[OF assms(1) nn, of fb d, unfolded sum_requested] sk assms(2)
      requested_single window_nonneg[OF assms(4)] Let_def t
    using s by simp
qed

text \<open>The search with several entries in \<^verbatim>\<open>types\<close>, in closed form.\<close>

lemma globalSearch_multi:
  assumes "searchTermsOf (query opts) \<noteq> []" and "1 < length (typesOf opts)"
    and "1 \<le> pageOf opts" and "0 \<le> limitOf opts"
  shows "globalSearch fb d opts =
     (Inr \<lparr> results =
             take (nat (limitOf opts))
               (drop (nat (skipOf opts))
                  (sortDesc date
                     (requested (typesOf opts)
                        (\<lambda>k. take (nat (limitOf opts))
                               (kindHits fb d (SearchOptions.userId opts)
                                  (searchTermsOf (query opts)) k))))),
            total = (\<Sum>k\<in>set (typesOf opts).
                       kindCount d (SearchOptions.userId opts) (searchTermsOf (query opts)) k) \<rparr>,
      requested (typesOf opts)
        (kindTrace (SearchOptions.userId opts) (searchTermsOf (query opts)) (limitOf opts) 0))"
proof -
  have sk: "storeSkip opts = 0"
    using assms(2) by (simp add: storeSkip_def)
  have nn: "0 \<le> storeSkip opts"
    using sk by simp
  have w: "window (limitOf opts) 0 xs = take (nat (limitOf opts)) xs" for xs :: "SearchResult list"
    using window_nonneg[OF assms(4), of 0 xs] by simp
  show ?thesis
    unfolding globalSearch_ok[OF assms(1) nn, of fb d, unfolded sum_requested] sk w Let_def
    using assms(2) jsSlice_nonneg[OF skipOf_nonneg[OF assms(3,4)] assms(4)]
    by simp
qed

text \<open>The total of a search that returns.\<close>

lemma search_total:
  assumes "searchTermsOf (query opts) \<noteq> []" and "fst (globalSearch fb d opts) = Inr r"
  shows "total r =
           (\<Sum>k\<in>set (typesOf opts).
              kindCount d (SearchOptions.userId opts) (searchTermsOf (query opts)) k)"
proof (cases "0 \<le> storeSkip opts")
  case True
  from globalSearch_ok[OF assms(1) True, of fb d, unfolded sum_requested] assms(2)
  show ?thesis
    by auto
next
  case False
  then have "storeSkip opts < 0"
    by simp
  from globalSearch_rejected[OF assms(1) this, of fb d] assms(2) show ?thesis
    by simp
qed

lemma search_returns:
  assumes "searchTermsOf (query opts) \<noteq> []" and "0 \<le> storeSkip opts"
  shows "\<exists>r. fst (globalSearch fb d opts) = Inr r"
  using globalSearch_ok[OF assms, of fb d] by simp


section \<open>The sample data, evaluated\<close>

lemma occursIn_intro: "s = pre @ mid @ post \<Longrightarrow> toLowerCase mid = toLowerCase t \<Longrightarrow> occursIn t s"
  unfolding occursIn_def by blast

lemma damage_terms: "searchTermsOf ''damage'' = [''damage'']"
  by code_simp

lemma samplePolicy_matches: "policyMatches ''test-user'' [''damage''] samplePolicy"
proof -
  have "InsurancePolicy.description samplePolicy = Some ''Home insurance, storm damage included''"
    by (simp add: samplePolicy_def)
  moreover have "occursIn ''damage'' ''Home insurance, storm damage included''"
    by (rule occursIn_intro[of _ "''Home insurance, storm ''" "''damage''" "'' included''"]) simp_all
  ultimately have "policyTextMatch [''damage''] samplePolicy"
    by (simp add: policyTextMatch_def)
  then show ?thesis
    by (simp add: policyMatches_iff samplePolicy_def)
qed

lemma sampleClaim_matches: "claimMatches ''test-user'' [''damage''] sampleClaim"
proof -
  have "Claim.description sampleClaim = ''Water damage claim''"
    by (simp add: sampleClaim_def)
  moreover have "occursIn ''damage'' ''Water damage claim''"
    by (rule occursIn_intro[of _ "''Water ''" "''damage''" "'' claim''"]) simp_all
  ultimately have "claimTextMatch [''damage''] sampleClaim"
    by (simp add: claimTextMatch_def)
  then show ?thesis
    by (simp add: claimMatches_iff sampleClaim_def)
qed

lemma secondClaim_matches: "claimMatches ''test-user'' [''damage''] secondClaim"
proof -
  have "Claim.description secondClaim = ''Roof damage after storm''"
    by (simp add: secondClaim_def)
  moreover have "occursIn ''damage'' ''Roof damage after storm''"
    by (rule occursIn_intro[of _ "''Roof ''" "''damage''" "'' after storm''"]) simp_all
  ultimately have "claimTextMatch [''damage''] secondClaim"
    by (simp add: claimTextMatch_def)
  then show ?thesis
    by (simp add: claimMatches_iff secondClaim_def)
qed

lemma sampleDocument_matches: "documentMatches ''test-user'' [''damage''] sampleDocument"
proof -
  have "fileName sampleDocument = ''water-damage.jpg''"
    by (simp add: sampleDocument_def)
  moreover have "occursIn ''damage'' ''water-damage.jpg''"
    by (rule occursIn_intro[of _ "''water-''" "''damage''" "''.jpg''"]) simp_all
  ultimately have "documentTextMatch [''damage''] sampleDocument"
    by (simp add: documentTextMatch_def)
  then show ?thesis
    by (simp add: documentMatches_iff sampleDocument_def)
qed

lemma sortDesc_single: "sortDesc key [x] = [x]"
  by (simp add: sortDesc_def)

lemma sample_hits:
  "kindHits fb sampleDb ''test-user'' [''damage''] policy = [policyResult samplePolicy]"
  "kindHits fb sampleDb ''test-user'' [''damage''] claim = [claimResult sampleClaim]"
  "kindHits fb sampleDb ''test-user'' [''damage''] document = [documentResult fb sampleDocument]"
  by (simp_all add: sampleDb_def samplePolicy_matches sampleClaim_matches
        sampleDocument_matches sortDesc_single)

lemma sample_counts:
  "kindCount sampleDb ''test-user'' [''damage''] k = 1"
  by (cases k)
     (simp_all add: sampleDb_def samplePolicy_matches sampleClaim_matches
        sampleDocument_matches)

lemma sample_dates:
  "date (policyResult samplePolicy) = 1672531200000"
  "date (claimResult sampleClaim) = 1672617600000"
  "date (documentResult fb sampleDocument) = 1672704000000"
  by (simp_all add: date_policyResult date_claimResult date_documentResult samplePolicy_def
        sampleClaim_def sampleDocument_def)

lemma damageSearch_simps:
  "query damageSearch = ''damage''"
  "SearchOptions.userId damageSearch = ''test-user''"
  "typesOf damageSearch = [policy, claim, document]"
  "limitOf damageSearch = 20"
  "pageOf damageSearch = 1"
  "skipOf damageSearch = 0"
  by (simp_all add: damageSearch_def typesOf_def limitOf_def pageOf_def skipOf_def)

text \<open>The scenario of the unit test: the three records come back newest first, total 3.\<close>

lemma sample_search:
  "fst (globalSearch fb sampleDb damageSearch) =
     Inr \<lparr> results = [documentResult fb sampleDocument, claimResult sampleClaim,
                      policyResult samplePolicy],
           total = 3 \<rparr>"
proof -
  have t: "searchTermsOf (query damageSearch) \<noteq> []"
    by (simp add: damageSearch_simps damage_terms)
  have l: "1 < length (typesOf damageSearch)"
    by (simp add: damageSearch_simps)
  have p: "1 \<le> pageOf damageSearch" "0 \<le> limitOf damageSearch"
    by (simp_all add: damageSearch_simps)
  have s: "sortDesc date [policyResult samplePolicy, claimResult sampleClaim,
                          documentResult fb sampleDocument]
             = [documentResult fb sampleDocument, claimResult sampleClaim,
                policyResult samplePolicy]"
    by (simp add: sortDesc_def sample_dates)
  show ?thesis
    unfolding globalSearch_multi[OF t l p, of fb sampleDb]
    by (simp add: damageSearch_simps damage_terms requested_def sample_hits sample_counts s
          del: kindHits.simps kindCount.simps)
qed

lemma twoClaims_hits:
  "kindHits fb twoClaimsDb ''test-user'' [''damage''] claim
     = [claimResult sampleClaim, claimResult secondClaim]"
proof -
  have "sortDesc Claim.updatedAt [sampleClaim, secondClaim] = [sampleClaim, secondClaim]"
    by (simp add: sortDesc_def sampleClaim_def secondClaim_def)
  then show ?thesis
    by (simp add: twoClaimsDb_def sampleClaim_matches secondClaim_matches)
qed

lemma twoClaims_count: "kindCount twoClaimsDb ''test-user'' [''damage''] claim = 2"
  by (simp add: twoClaimsDb_def sampleClaim_matches secondClaim_matches)

lemma claimTwiceSearch_simps:
  "query claimTwiceSearch = ''damage''"
  "SearchOptions.userId claimTwiceSearch = ''test-user''"
  "typesOf claimTwiceSearch = [claim, claim]"
  "limitOf claimTwiceSearch = 1"
  "pageOf claimTwiceSearch = 2"
  "skipOf claimTwiceSearch = 1"
  by (simp_all add: claimTwiceSearch_def typesOf_def limitOf_def pageOf_def skipOf_def)

lemma claimOnceSearch_simps:
  "query claimOnceSearch = ''damage''"
  "SearchOptions.userId claimOnceSearch = ''test-user''"
  "typesOf claimOnceSearch = [claim]"
  "limitOf claimOnceSearch = 1"
  "pageOf claimOnceSearch = 1"
  "skipOf claimOnceSearch = 0"
  by (simp_all add: claimOnceSearch_def typesOf_def limitOf_def pageOf_def skipOf_def)

lemma claimOncePageTwoSearch_simps:
  "query claimOncePageTwoSearch = ''damage''"
  "SearchOptions.userId claimOncePageTwoSearch = ''test-user''"
  "typesOf claimOncePageTwoSearch = [claim]"
  "limitOf claimOncePageTwoSearch = 1"
  "pageOf claimOncePageTwoSearch = 2"
  "skipOf claimOncePageTwoSearch = 1"
  by (simp_all add: claimOncePageTwoSearch_def typesOf_def limitOf_def pageOf_def skipOf_def)

lemma uniqueIds_twoClaimsDb: "uniqueIds twoClaimsDb"
  by (simp add: uniqueIds_def twoClaimsDb_def sampleClaim_def secondClaim_def)


section \<open>The faceted filters in closed form\<close>

lemma where_all_append: "where_all g (a @ b) \<longleftrightarrow> where_all g a \<and> where_all g b"
  by (simp add: where_all_def)

lemma where_all_Cons: "where_all g (w # ws) \<longleftrightarrow> where_holds g w \<and> where_all g ws"
  by (simp add: where_all_def)

lemma where_all_Nil: "where_all g []"
  by (simp add: where_all_def)

lemma policy_typeFilter:
  "where_all (policy_field p)
     (case xs of
        Some ts \<Rightarrow> if length ts > 0 then [Field F_insuranceType (In (map VStr ts))] else []
      | None \<Rightarrow> [])
   \<longleftrightarrow> (case xs of
          None \<Rightarrow> True
        | Some ts \<Rightarrow> ts = [] \<or> InsuranceType_name (InsurancePolicy.insuranceType p) \<in> set ts)"
  by (cases xs) (auto simp: where_all_def)

lemma policy_providerFilter:
  "where_all (policy_field p)
     (case xs of
        Some ps \<Rightarrow> if length ps > 0 then [Field F_provider (In (map VStr ps))] else []
      | None \<Rightarrow> [])
   \<longleftrightarrow> (case xs of None \<Rightarrow> True | Some ps \<Rightarrow> ps = [] \<or> InsurancePolicy.provider p \<in> set ps)"
  by (cases xs) (auto simp: where_all_def)

lemma policy_activeFilter:
  "where_all (policy_field p)
     (case x of Some b \<Rightarrow> [Field F_isActive (Equals (VBool b))] | None \<Rightarrow> [])
   \<longleftrightarrow> (case x of None \<Rightarrow> True | Some b \<Rightarrow> InsurancePolicy.isActive p = b)"
  by (cases x) (auto simp: where_all_def)

lemma policy_amountFilter:
  "where_all (policy_field p)
     (if lo \<noteq> None \<or> hi \<noteq> None
      then [Field F_coverageAmount (Range (map_option VNum lo) (map_option VNum hi))]
      else [])
   \<longleftrightarrow> (case lo of None \<Rightarrow> True | Some l \<Rightarrow> l \<le> coverageAmount p) \<and>
       (case hi of None \<Rightarrow> True | Some h \<Rightarrow> coverageAmount p \<le> h)"
  by (cases lo; cases hi) (auto simp: where_all_def)

lemma policy_startFilter:
  "where_all (policy_field p)
     (case x of Some a \<Rightarrow> [Field F_startDate (Range (Some (VDate a)) None)] | None \<Rightarrow> [])
   \<longleftrightarrow> (case x of None \<Rightarrow> True | Some a \<Rightarrow> a \<le> startDate p)"
  by (cases x) (auto simp: where_all_def)

lemma policy_endFilter:
  "where_all (policy_field p)
     (case x of Some b \<Rightarrow> [Field F_endDate (Range None (Some (VDate b)))] | None \<Rightarrow> [])
   \<longleftrightarrow> (case x of None \<Rightarrow> True | Some b \<Rightarrow> endDate p \<le> b)"
  by (cases x) (auto simp: where_all_def)

lemma policyFiltersWhere_iff:
  "where_all (policy_field p) (policyFiltersWhere uid filters) \<longleftrightarrow>
     InsurancePolicy.userId p = uid \<and> policySatisfies filters p"
  unfolding policyFiltersWhere_def where_all_append policy_typeFilter policy_providerFilter
    policy_activeFilter policy_amountFilter policy_startFilter policy_endFilter
    policySatisfies_def
  by (simp add: where_all_def)

lemma set_take_drop: "set (take n (drop k ys)) \<subseteq> set ys"
  by (meson set_take_subset set_drop_subset subset_trans)

lemma set_window: "set (window tk sk xs) \<subseteq> set xs"
proof (cases "0 \<le> tk")
  case True
  then show ?thesis
    using set_take_drop[of "nat tk" "nat sk" xs] by (simp add: window_def)
next
  case False
  then show ?thesis
    using set_take_drop[of "nat (- tk)" "nat sk" "rev xs"] by (simp add: window_def)
qed

lemma policySatisfies_eta:
  "(\<lambda>r. where_all (policy_field r) (policyFiltersWhere uid filters))
     = (\<lambda>p. InsurancePolicy.userId p = uid \<and> policySatisfies filters p)"
  by (simp add: fun_eq_iff policyFiltersWhere_iff)

lemma filterPolicies_eq:
  "filterPolicies d uid filters pg ps =
     (let size = pageSizeArgOf ps; skip = (pageArgOf pg - 1) * size;
          hits = filter (\<lambda>p. InsurancePolicy.userId p = uid \<and> policySatisfies filters p)
                   (policies d)
      in (if skip < 0 then Inl (InvalidSkip skip)
          else Inr (window size skip (sortDesc InsurancePolicy.updatedAt hits),
                    int (length hits)),
          [Issue (FindMany InsurancePolicyModel (policyFiltersWhere uid filters) [] size skip),
           Issue (Count InsurancePolicyModel (policyFiltersWhere uid filters)),
           AwaitAll]))"
  by (simp add: filterPolicies_def awaitAll2_def insurancePolicy_findMany_def
      insurancePolicy_count_def findMany_def count_def policySatisfies_eta Let_def
      pageArgOf_def pageSizeArgOf_def)

lemma homeFilters_where:
  "policyFiltersWhere ''test-user'' homeFilters =
     [Field F_userId (Equals (VStr ''test-user'')),
      Field F_insuranceType (In [VStr ''HOME'']),
      Field F_provider (In [VStr ''Insurance Co'']),
      Field F_isActive (Equals (VBool True)),
      Field F_coverageAmount (Range (Some (VNum 100000)) (Some (VNum 500000)))]"
  by (simp add: policyFiltersWhere_def homeFilters_def)

lemma samplePolicy_home: "policySatisfies homeFilters samplePolicy"
  by (simp add: policySatisfies_def homeFilters_def samplePolicy_def)


section \<open>The records of one user\<close>

lemma scoped_userId:
  assumes "Field F_userId (Equals (VStr uid)) \<in> set wh" and "where_all g wh"
  shows "g F_userId = VStr uid"
proof -
  from assms(2) have "\<forall>w\<in>set wh. where_holds g w"
    by (simp add: where_all_def list_all_iff)
  with assms(1) have "where_holds g (Field F_userId (Equals (VStr uid)))"
    by blast
  then show ?thesis
    by simp
qed

lemma filter_filter_implied:
  assumes "\<And>x. P x \<Longrightarrow> Q x"
  shows "filter P (filter Q xs) = filter P xs"
  using assms by (induction xs) auto

lemma policies_userView:
  assumes "Field F_userId (Equals (VStr uid)) \<in> set wh"
  shows "filter (\<lambda>r. where_all (policy_field r) wh) (policies (userView uid d))
           = filter (\<lambda>r. where_all (policy_field r) wh) (policies d)"
proof -
  have "InsurancePolicy.userId r = uid" if "where_all (policy_field r) wh" for r
    using scoped_userId[OF assms that] by simp
  then show ?thesis
    by (simp add: userView_def filter_filter_implied del: filter_filter)
qed

lemma claims_userView:
  assumes "Field F_userId (Equals (VStr uid)) \<in> set wh"
  shows "filter (\<lambda>r. where_all (claim_field r) wh) (claims (userView uid d))
           = filter (\<lambda>r. where_all (claim_field r) wh) (claims d)"
proof -
  have "Claim.userId r = uid" if "where_all (claim_field r) wh" for r
    using scoped_userId[OF assms that] by simp
  then show ?thesis
    by (simp add: userView_def filter_filter_implied del: filter_filter)
qed

lemma documents_userView:
  assumes "Field F_userId (Equals (VStr uid)) \<in> set wh"
  shows "filter (\<lambda>r. where_all (document_field r) wh) (documents (userView uid d))
           = filter (\<lambda>r. where_all (document_field r) wh) (documents d)"
proof -
  have "Document.userId r = uid" if "where_all (document_field r) wh" for r
    using scoped_userId[OF assms that] by simp
  then show ?thesis
    by (simp add: userView_def filter_filter_implied del: filter_filter)
qed

lemma scoped_wheres:
  "Field F_userId (Equals (VStr uid)) \<in> set (policyWhere uid terms)"
  "Field F_userId (Equals (VStr uid)) \<in> set (claimWhere uid terms)"
  "Field F_userId (Equals (VStr uid)) \<in> set (documentWhere uid terms)"
  "Field F_userId (Equals (VStr uid)) \<in> set (policyFiltersWhere uid pf)"
  "Field F_userId (Equals (VStr uid)) \<in> set (claimFiltersWhere uid cf)"
  "Field F_userId (Equals (VStr uid)) \<in> set (documentFiltersWhere uid df)"
  by (simp_all add: policyWhere_def claimWhere_def documentWhere_def policyFiltersWhere_def
        claimFiltersWhere_def documentFiltersWhere_def)

lemma kindHits_userView:
  "kindHits fb (userView uid d) uid terms k = kindHits fb d uid terms k"
  using policies_userView[OF scoped_wheres(1), of uid terms d]
    claims_userView[OF scoped_wheres(2), of uid terms d]
    documents_userView[OF scoped_wheres(3), of uid terms d]
  by (cases k) (simp_all add: policyMatches_eta claimMatches_eta documentMatches_eta)

lemma kindCount_userView:
  "kindCount (userView uid d) uid terms k = kindCount d uid terms k"
  using policies_userView[OF scoped_wheres(1), of uid terms d]
    claims_userView[OF scoped_wheres(2), of uid terms d]
    documents_userView[OF scoped_wheres(3), of uid terms d]
  by (cases k) (simp_all add: policyMatches_eta claimMatches_eta documentMatches_eta)

lemma globalSearch_userView:
  "globalSearch fb (userView (SearchOptions.userId opts) d) opts = globalSearch fb d opts"
  unfolding globalSearch_def Let_def
    searchPolicies_eq[where fb=fb] searchClaims_eq[where fb=fb] searchDocuments_eq
    kindHits_userView kindCount_userView
  by (rule refl)

lemma filterPolicies_userView:
  "filterPolicies (userView uid d) uid pf pg ps = filterPolicies d uid pf pg ps"
  using policies_userView[OF scoped_wheres(4), of uid pf d]
  by (simp add: filterPolicies_def awaitAll2_def insurancePolicy_findMany_def
      insurancePolicy_count_def findMany_def count_def Let_def)

lemma find_filter_implied:
  assumes "\<And>x. x \<in> set xs \<Longrightarrow> P x \<Longrightarrow> Q x"
  shows "find P (filter Q xs) = find P xs"
  using assms by (induction xs) auto

lemma joinPolicy_userView:
  assumes "\<forall>p\<in>set (policies d). InsurancePolicy.id p = pid \<longrightarrow> InsurancePolicy.userId p = uid"
  shows "joinPolicy (userView uid d) sel pid = joinPolicy d sel pid"
proof -
  have "find (\<lambda>p. InsurancePolicy.id p = pid)
          (filter (\<lambda>p. InsurancePolicy.userId p = uid) (policies d))
        = find (\<lambda>p. InsurancePolicy.id p = pid) (policies d)"
    using assms by (intro find_filter_implied) simp
  then show ?thesis
    by (simp add: joinPolicy_def userView_def)
qed

lemma joinClaim_userView:
  assumes "\<forall>c\<in>set (claims d). Claim.id c = cid \<longrightarrow> Claim.userId c = uid"
  shows "joinClaim (userView uid d) sel cid = joinClaim d sel cid"
proof -
  have "find (\<lambda>c. Claim.id c = cid) (filter (\<lambda>c. Claim.userId c = uid) (claims d))
        = find (\<lambda>c. Claim.id c = cid) (claims d)"
    using assms by (intro find_filter_implied) simp
  then show ?thesis
    by (simp add: joinClaim_def userView_def)
qed

lemma set_findMany:
  assumes "findMany g ob wh tk sk rows = Inr xs" and "x \<in> set xs"
  shows "x \<in> set rows \<and> where_all (g x) wh"
proof -
  from assms(1) have "xs = window tk sk (sortDesc ob (filter (\<lambda>r. where_all (g r) wh) rows))"
    by (simp add: findMany_def split: if_splits)
  with set_window[of tk sk "sortDesc ob (filter (\<lambda>r. where_all (g r) wh) rows)"] assms(2)
  have "x \<in> set (sortDesc ob (filter (\<lambda>r. where_all (g r) wh) rows))"
    by blast
  then show ?thesis
    by (simp add: set_sortDesc)
qed

lemma map_sum_rows_cong:
  assumes "\<And>xs x. r = Inr xs \<Longrightarrow> x \<in> set xs \<Longrightarrow> f x = h x"
  shows "map_sum (\<lambda>e. e) (map f) r = map_sum (\<lambda>e. e) (map h) r"
  using assms by (cases r) auto

lemma claim_findMany_userView:
  assumes "ownParents uid d" and "Field F_userId (Equals (VStr uid)) \<in> set wh"
  shows "claim_findMany (userView uid d) wh sel tk sk = claim_findMany d wh sel tk sk"
proof -
  let ?r = "findMany claim_field Claim.updatedAt wh tk sk (claims d)"
  have r: "findMany claim_field Claim.updatedAt wh tk sk (claims (userView uid d)) = ?r"
    using claims_userView[OF assms(2), of d] by (simp add: findMany_def)
  have j: "joinPolicy (userView uid d) sel (Claim.policyId c) = joinPolicy d sel (Claim.policyId c)"
    if "?r = Inr xs" and "c \<in> set xs" for xs c
  proof -
    from set_findMany[OF that] have c: "c \<in> set (claims d)" and "where_all (claim_field c) wh"
      by simp_all
    from scoped_userId[OF assms(2) this(2)] have "Claim.userId c = uid"
      by simp
    with assms(1) c
    have "\<forall>p\<in>set (policies d).
            InsurancePolicy.id p = Claim.policyId c \<longrightarrow> InsurancePolicy.userId p = uid"
      by (simp add: ownParents_def)
    then show ?thesis
      by (rule joinPolicy_userView)
  qed
  have "map_sum (\<lambda>e. e) (map (\<lambda>c. (c, joinPolicy (userView uid d) sel (Claim.policyId c)))) ?r
        = map_sum (\<lambda>e. e) (map (\<lambda>c. (c, joinPolicy d sel (Claim.policyId c)))) ?r"
    by (rule map_sum_rows_cong) (simp add: j)
  then show ?thesis
    by (simp add: claim_findMany_def r)
qed

lemma document_findMany_include_userView:
  assumes "ownParents uid d" and "Field F_userId (Equals (VStr uid)) \<in> set wh"
  shows "document_findMany_include (userView uid d) wh psel csel tk sk
           = document_findMany_include d wh psel csel tk sk"
proof -
  let ?r = "findMany document_field Document.updatedAt wh tk sk (documents d)"
  have r: "findMany document_field Document.updatedAt wh tk sk (documents (userView uid d)) = ?r"
    using documents_userView[OF assms(2), of d] by (simp add: findMany_def)
  have j: "joinOpt (joinPolicy (userView uid d) psel) (Document.policyId x)
             = joinOpt (joinPolicy d psel) (Document.policyId x) \<and>
           joinOpt (joinClaim (userView uid d) csel) (Document.claimId x)
             = joinOpt (joinClaim d csel) (Document.claimId x)"
    if "?r = Inr xs" and "x \<in> set xs" for xs x
  proof -
    from set_findMany[OF that] have x: "x \<in> set (documents d)"
      and "where_all (document_field x) wh"
      by simp_all
    from scoped_userId[OF assms(2) this(2)] have u: "Document.userId x = uid"
      by simp
    have p: "joinOpt (joinPolicy (userView uid d) psel) (Document.policyId x)
               = joinOpt (joinPolicy d psel) (Document.policyId x)"
    proof (cases "Document.policyId x")
      case None
      then show ?thesis
        by (simp add: joinOpt_def)
    next
      case (Some pid)
      with assms(1) x u
      have "\<forall>p\<in>set (policies d). InsurancePolicy.id p = pid \<longrightarrow> InsurancePolicy.userId p = uid"
        by (auto simp: ownParents_def)
      from joinPolicy_userView[OF this] Some show ?thesis
        by (simp add: joinOpt_def)
    qed
    have c: "joinOpt (joinClaim (userView uid d) csel) (Document.claimId x)
               = joinOpt (joinClaim d csel) (Document.claimId x)"
    proof (cases "Document.claimId x")
      case None
      then show ?thesis
        by (simp add: joinOpt_def)
    next
      case (Some cid)
      with assms(1) x u
      have "\<forall>c\<in>set (claims d). Claim.id c = cid \<longrightarrow> Claim.userId c = uid"
        by (auto simp: ownParents_def)
      from joinClaim_userView[OF this] Some show ?thesis
        by (simp add: joinOpt_def)
    qed
    from p c show ?thesis
      by simp
  qed
  have "map_sum (\<lambda>e. e)
          (map (\<lambda>x. (x, joinOpt (joinPolicy (userView uid d) psel) (Document.policyId x),
                        joinOpt (joinClaim (userView uid d) csel) (Document.claimId x)))) ?r
        = map_sum (\<lambda>e. e)
          (map (\<lambda>x. (x, joinOpt (joinPolicy d psel) (Document.policyId x),
                        joinOpt (joinClaim d csel) (Document.claimId x)))) ?r"
    by (rule map_sum_rows_cong) (simp add: j)
  then show ?thesis
    by (simp add: document_findMany_include_def r)
qed

lemma filterClaims_userView:
  assumes "ownParents uid d"
  shows "filterClaims (userView uid d) uid cf pg ps = filterClaims d uid cf pg ps"
  using claims_userView[OF scoped_wheres(5), of uid cf d]
  by (simp add: filterClaims_def Let_def claim_findMany_userView[OF assms scoped_wheres(5)]
      claim_count_def count_def)

lemma filterDocuments_userView:
  assumes "ownParents uid d"
  shows "filterDocuments (userView uid d) uid df pg ps = filterDocuments d uid df pg ps"
  using documents_userView[OF scoped_wheres(6), of uid df d]
  by (simp add: filterDocuments_def Let_def
      document_findMany_include_userView[OF assms scoped_wheres(6)]
      document_count_def count_def)

lemma userScoped_append: "userScoped uid (a @ b) \<longleftrightarrow> userScoped uid a \<and> userScoped uid b"
  by (simp add: userScoped_def)

lemma userScoped_kindTrace: "userScoped uid (kindTrace uid terms tk sk k)"
  using scoped_wheres(1-3)[of uid terms]
  by (cases k) (simp_all add: userScoped_def)

lemma userScoped_Nil: "userScoped uid []"
  by (simp add: userScoped_def)

lemma userScoped_globalSearch:
  "userScoped (SearchOptions.userId opts) (snd (globalSearch fb d opts))"
  unfolding globalSearch_def Let_def
    searchPolicies_eq[where fb=fb] searchClaims_eq[where fb=fb] searchDocuments_eq
  by (simp add: io_bind_def io_return_def userScoped_append userScoped_kindTrace
        userScoped_Nil del: kindTrace.simps)

lemma userScoped_filters:
  "userScoped uid (snd (filterPolicies d uid pf pg ps))"
  "userScoped uid (snd (filterClaims d uid cf pg ps))"
  "userScoped uid (snd (filterDocuments d uid df pg ps))"
  using scoped_wheres(4)[of uid pf] scoped_wheres(5)[of uid cf] scoped_wheres(6)[of uid df]
  by (simp_all add: filterPolicies_def filterClaims_def filterDocuments_def Let_def
        awaitAll2_def insurancePolicy_findMany_def insurancePolicy_count_def
        claim_findMany_def claim_count_def document_findMany_include_def document_count_def
        userScoped_def)

lemma sharedDb_views: "userView ''test-user'' sharedDb = userView ''test-user'' sharedDbChanged"
  by (simp add: userView_def sharedDb_def sharedDbChanged_def sampleDb_def othersPolicy_def
        othersPolicyChanged_def samplePolicy_def)

lemma sharedDb_differ: "sharedDb \<noteq> sharedDbChanged"
  by (simp add: sharedDb_def sharedDbChanged_def sampleDb_def othersPolicy_def
        othersPolicyChanged_def)

lemma sharedDb_ownParents:
  "ownParents ''test-user'' sharedDb"
  "ownParents ''test-user'' sharedDbChanged"
  by (simp_all add: ownParents_def sharedDb_def sharedDbChanged_def sampleDb_def
        othersPolicy_def othersPolicyChanged_def samplePolicy_def sampleClaim_def
        sampleDocument_def)


section \<open>The verified properties\<close>

subsection \<open>The scope of the user\<close>

text \<open>
  C1, as amended. Every query that \<^verbatim>\<open>globalSearch\<close>, \<^verbatim>\<open>filterPolicies\<close>,
  \<^verbatim>\<open>filterClaims\<close> and \<^verbatim>\<open>filterDocuments\<close> issue carries the condition that the
  record's user is the requesting user. For two stores that hold the same records of that
  user, the responses of \<^verbatim>\<open>globalSearch\<close> and of \<^verbatim>\<open>filterPolicies\<close> are the same,
  store calls included; so are those of \<^verbatim>\<open>filterClaims\<close> and \<^verbatim>\<open>filterDocuments\<close>,
  which attach the parent policy and claim to each row, provided that in both stores the
  parents of the user's claims and documents are the user's own.
\<close>

theorem user_scoping:
  assumes "userView uid d1 = userView uid d2"
  shows
   "(SearchOptions.userId opts = uid \<longrightarrow> globalSearch fb d1 opts = globalSearch fb d2 opts) \<and>
    filterPolicies d1 uid pf pg ps = filterPolicies d2 uid pf pg ps \<and>
    (ownParents uid d1 \<and> ownParents uid d2 \<longrightarrow>
       filterClaims d1 uid cf pg ps = filterClaims d2 uid cf pg ps \<and>
       filterDocuments d1 uid df pg ps = filterDocuments d2 uid df pg ps) \<and>
    userScoped (SearchOptions.userId opts) (snd (globalSearch fb d1 opts)) \<and>
    userScoped uid (snd (filterPolicies d1 uid pf pg ps)) \<and>
    userScoped uid (snd (filterClaims d1 uid cf pg ps)) \<and>
    userScoped uid (snd (filterDocuments d1 uid df pg ps))"
proof -
  have g: "SearchOptions.userId opts = uid \<longrightarrow>
             globalSearch fb d1 opts = globalSearch fb d2 opts"
  proof
    assume u: "SearchOptions.userId opts = uid"
    have "globalSearch fb d1 opts = globalSearch fb (userView uid d1) opts"
      using globalSearch_userView[of fb opts d1] u by simp
    also have "\<dots> = globalSearch fb (userView uid d2) opts"
      by (simp only: assms)
    also have "\<dots> = globalSearch fb d2 opts"
      using globalSearch_userView[of fb opts d2] u by simp
    finally show "globalSearch fb d1 opts = globalSearch fb d2 opts" .
  qed
  have p: "filterPolicies d1 uid pf pg ps = filterPolicies d2 uid pf pg ps"
    using filterPolicies_userView[of uid d1 pf pg ps] filterPolicies_userView[of uid d2 pf pg ps]
    by (simp only: assms)
  have cd: "ownParents uid d1 \<and> ownParents uid d2 \<longrightarrow>
       filterClaims d1 uid cf pg ps = filterClaims d2 uid cf pg ps \<and>
       filterDocuments d1 uid df pg ps = filterDocuments d2 uid df pg ps"
  proof
    assume o: "ownParents uid d1 \<and> ownParents uid d2"
    then have o1: "ownParents uid d1" and o2: "ownParents uid d2"
      by simp_all
    have c: "filterClaims d1 uid cf pg ps = filterClaims d2 uid cf pg ps"
      using filterClaims_userView[OF o1, of cf pg ps] filterClaims_userView[OF o2, of cf pg ps]
      by (simp only: assms)
    have x: "filterDocuments d1 uid df pg ps = filterDocuments d2 uid df pg ps"
      using filterDocuments_userView[OF o1, of df pg ps]
        filterDocuments_userView[OF o2, of df pg ps]
      by (simp only: assms)
    from c x show "filterClaims d1 uid cf pg ps = filterClaims d2 uid cf pg ps \<and>
       filterDocuments d1 uid df pg ps = filterDocuments d2 uid df pg ps"
      by (rule conjI)
  qed
  from g p cd userScoped_globalSearch[of opts fb d1] userScoped_filters(1)[of uid d1 pf pg ps]
    userScoped_filters(2)[of uid d1 cf pg ps] userScoped_filters(3)[of uid d1 df pg ps]
  show ?thesis
    by (intro conjI) assumption+
qed

theorem user_scoping_witness:
  "userView ''test-user'' sharedDb = userView ''test-user'' sharedDbChanged \<and>
   sharedDb \<noteq> sharedDbChanged \<and>
   ownParents ''test-user'' sharedDb \<and> ownParents ''test-user'' sharedDbChanged \<and>
   globalSearch sampleFormatBytes sharedDb damageSearch
     = globalSearch sampleFormatBytes sharedDbChanged damageSearch \<and>
   filterPolicies sharedDb ''test-user'' homeFilters None None
     = filterPolicies sharedDbChanged ''test-user'' homeFilters None None \<and>
   filterClaims sharedDb ''test-user'' noClaimFilters None None
     = filterClaims sharedDbChanged ''test-user'' noClaimFilters None None \<and>
   filterDocuments sharedDb ''test-user'' noDocumentFilters None None
     = filterDocuments sharedDbChanged ''test-user'' noDocumentFilters None None"
proof -
  note w = user_scoping[OF sharedDb_views, of damageSearch sampleFormatBytes homeFilters
             None None noClaimFilters noDocumentFilters]
  have u: "SearchOptions.userId damageSearch = ''test-user''"
    by (simp add: damageSearch_simps)
  note g = w[THEN conjunct1, rule_format, OF u]
  note p = w[THEN conjunct2, THEN conjunct1]
  note cd = w[THEN conjunct2, THEN conjunct2, THEN conjunct1, rule_format,
              OF conjI[OF sharedDb_ownParents]]
  from sharedDb_views sharedDb_differ sharedDb_ownParents g p cd[THEN conjunct1]
    cd[THEN conjunct2]
  show ?thesis
    by (intro conjI) assumption+
qed

text \<open>
  C1 as it is stated fails for \<^verbatim>\<open>filterClaims\<close> on a store in which a claim of the
  user names another user's policy as its parent: the two stores below hold the same
  records of \<^verbatim>\<open>test-user\<close> and differ in the other user's policy alone, and the
  responses differ in the provider that is attached to the claim.
\<close>

theorem joined_parent_counterexample:
  "userView ''test-user'' strayDb = userView ''test-user'' strayDbChanged \<and>
   fst (filterClaims strayDb ''test-user'' noClaimFilters None None) =
     Inr ([(strayClaim,
            Related [(F_policyNumber, VStr ''POL-900''), (F_provider, VStr ''Acme Mutual''),
                     (F_insuranceType, VStr ''AUTO'')])], 1) \<and>
   fst (filterClaims strayDbChanged ''test-user'' noClaimFilters None None) =
     Inr ([(strayClaim,
            Related [(F_policyNumber, VStr ''POL-900''), (F_provider, VStr ''Zenith Assurance''),
                     (F_insuranceType, VStr ''AUTO'')])], 1)"
proof -
  have v: "userView ''test-user'' strayDb = userView ''test-user'' strayDbChanged"
    by (simp add: userView_def strayDb_def strayDbChanged_def othersPolicy_def
          othersPolicyChanged_def)
  have w: "claimFiltersWhere ''test-user'' noClaimFilters
             = [Field F_userId (Equals (VStr ''test-user''))]"
    by (simp add: claimFiltersWhere_def noClaimFilters_def)
  have m: "where_all (claim_field strayClaim) [Field F_userId (Equals (VStr ''test-user''))]"
    by (simp add: where_all_def strayClaim_def sampleClaim_def)
  have k: "Claim.policyId strayClaim = ''policy-9''"
    by (simp add: strayClaim_def)
  have j1: "joinPolicy strayDb [F_policyNumber, F_provider, F_insuranceType] ''policy-9'' =
     Related [(F_policyNumber, VStr ''POL-900''), (F_provider, VStr ''Acme Mutual''),
              (F_insuranceType, VStr ''AUTO'')]"
    by (simp add: joinPolicy_def strayDb_def othersPolicy_def)
  have j2: "joinPolicy strayDbChanged [F_policyNumber, F_provider, F_insuranceType] ''policy-9'' =
     Related [(F_policyNumber, VStr ''POL-900''), (F_provider, VStr ''Zenith Assurance''),
              (F_insuranceType, VStr ''AUTO'')]"
    by (simp add: joinPolicy_def strayDbChanged_def othersPolicyChanged_def othersPolicy_def)
  have c: "claims strayDb = [strayClaim]" "claims strayDbChanged = [strayClaim]"
    by (simp_all add: strayDb_def strayDbChanged_def)
  have f1: "fst (filterClaims strayDb ''test-user'' noClaimFilters None None) =
     Inr ([(strayClaim,
            Related [(F_policyNumber, VStr ''POL-900''), (F_provider, VStr ''Acme Mutual''),
                     (F_insuranceType, VStr ''AUTO'')])], 1)"
    by (simp add: filterClaims_def Let_def w awaitAll2_def claim_findMany_def claim_count_def
          findMany_def count_def window_def sortDesc_single c m k j1)
  have f2: "fst (filterClaims strayDbChanged ''test-user'' noClaimFilters None None) =
     Inr ([(strayClaim,
            Related [(F_policyNumber, VStr ''POL-900''), (F_provider, VStr ''Zenith Assurance''),
                     (F_insuranceType, VStr ''AUTO'')])], 1)"
    by (simp add: filterClaims_def Let_def w awaitAll2_def claim_findMany_def claim_count_def
          findMany_def count_def window_def sortDesc_single c m k j2)
  from v f1 f2 show ?thesis
    by (intro conjI) assumption+
qed

subsection \<open>A query without terms\<close>

text \<open>
  C2. The tokenizer yields no terms exactly for a query that is empty or consists of
  white space only, and a global search whose query yields no terms returns no results
  and a total of 0 and issues no call to the store: its trace is empty.
\<close>

theorem globalSearch_blank_query:
  "(searchTermsOf (query opts) = [] \<longleftrightarrow> (\<forall>c\<in>set (query opts). isWhitespace c)) \<and>
   (searchTermsOf (query opts) = [] \<longrightarrow>
      globalSearch fb d opts = (Inr \<lparr> results = [], total = 0 \<rparr>, []))"
proof -
  have "globalSearch fb d opts = (Inr \<lparr> results = [], total = 0 \<rparr>, [])"
    if "searchTermsOf (query opts) = []"
    using that by (simp add: globalSearch_def Let_def io_return_def)
  with searchTermsOf_empty_iff[of "query opts"] show ?thesis
    by blast
qed

theorem globalSearch_blank_query_witness:
  "list_all isWhitespace (query blankSearch) \<and>
   searchTermsOf (query blankSearch) = [] \<and>
   globalSearch sampleFormatBytes sampleDb blankSearch = (Inr \<lparr> results = [], total = 0 \<rparr>, [])"
proof -
  have h: "\<forall>c\<in>set (query blankSearch). isWhitespace c"
    by (simp add: blankSearch_def isWhitespace_def)
  note w = globalSearch_blank_query[of blankSearch sampleFormatBytes sampleDb]
  from w[THEN conjunct1] h have t: "searchTermsOf (query blankSearch) = []"
    by simp
  from h have l: "list_all isWhitespace (query blankSearch)"
    by (simp add: list_all_iff)
  from l t w[THEN conjunct2, THEN mp, OF t] show ?thesis
    by (intro conjI) assumption+
qed

subsection \<open>The total\<close>

text \<open>
  C3. For a global search with at least one term, the total that is returned is the sum,
  over the kinds that are requested, of the number of the kind's records that satisfy the
  kind's search predicate; neither the limit nor the page enters it. The search returns
  whenever the store accepts the offset.
\<close>

theorem globalSearch_total:
  assumes "searchTermsOf (query opts) \<noteq> []"
  shows "(0 \<le> storeSkip opts \<longrightarrow> (\<exists>r. fst (globalSearch fb d opts) = Inr r)) \<and>
         (\<forall>r. fst (globalSearch fb d opts) = Inr r \<longrightarrow>
            total r =
              (\<Sum>k\<in>set (typesOf opts).
                 kindCount d (SearchOptions.userId opts) (searchTermsOf (query opts)) k))"
  using search_returns[OF assms, of fb d] search_total[OF assms, of fb d]
  by blast

theorem globalSearch_total_witness:
  "searchTermsOf (query damageSearch) \<noteq> [] \<and> 0 \<le> storeSkip damageSearch \<and>
   (\<exists>r. fst (globalSearch sampleFormatBytes sampleDb damageSearch) = Inr r \<and>
        total r =
          (\<Sum>k\<in>set (typesOf damageSearch).
             kindCount sampleDb ''test-user'' (searchTermsOf (query damageSearch)) k))"
proof -
  have t: "searchTermsOf (query damageSearch) \<noteq> []"
    by (simp add: searchTermsOf_empty_iff damageSearch_def isWhitespace_def)
  have s: "0 \<le> storeSkip damageSearch"
    by (simp add: storeSkip_def typesOf_def damageSearch_def)
  have u: "SearchOptions.userId damageSearch = ''test-user''"
    by (simp add: damageSearch_def)
  from globalSearch_total[OF t, of sampleFormatBytes sampleDb] t s u show ?thesis
    by auto
qed

subsection \<open>Several kinds\<close>

text \<open>
  C4. When \<^verbatim>\<open>types\<close> has more than one entry (as it has whenever more than one kind is
  requested), page at least 1 and limit not negative: the list query of each requested
  kind is issued with \<^verbatim>\<open>take\<close> = limit and \<^verbatim>\<open>skip\<close> = 0, so it fetches the first
  limit matches of the kind, newest first; the fetched candidates are put together in the
  order policy, claim, document and sorted by date, newest first, with a stable sort; and
  the results returned are those from position skip up to skip + limit of the sorted
  list, where skip = (page - 1) * limit.
\<close>

theorem multi_kind_merge_then_slice:
  assumes "searchTermsOf (query opts) \<noteq> []" and "1 < length (typesOf opts)"
    and "1 \<le> pageOf opts" and "0 \<le> limitOf opts"
  shows "\<exists>merged.
     stableNewestFirst
       (requested (typesOf opts)
          (\<lambda>k. take (nat (limitOf opts))
                 (kindHits fb d (SearchOptions.userId opts) (searchTermsOf (query opts)) k)))
       merged \<and>
     globalSearch fb d opts =
       (Inr \<lparr> results =
               take (nat (limitOf opts)) (drop (nat ((pageOf opts - 1) * limitOf opts)) merged),
              total = (\<Sum>k\<in>set (typesOf opts).
                         kindCount d (SearchOptions.userId opts) (searchTermsOf (query opts)) k) \<rparr>,
        requested (typesOf opts)
          (kindTrace (SearchOptions.userId opts) (searchTermsOf (query opts)) (limitOf opts) 0))"
  using globalSearch_multi[OF assms, of fb d] stableNewestFirst_sortDesc
  unfolding skipOf_def by blast

theorem multi_kind_merge_then_slice_witness:
  "searchTermsOf (query damageSearch) \<noteq> [] \<and> 1 < length (typesOf damageSearch) \<and>
   1 \<le> pageOf damageSearch \<and> 0 \<le> limitOf damageSearch \<and>
   (\<exists>merged.
      stableNewestFirst
        (requested (typesOf damageSearch)
           (\<lambda>k. take (nat (limitOf damageSearch))
                  (kindHits sampleFormatBytes sampleDb (SearchOptions.userId damageSearch)
                     (searchTermsOf (query damageSearch)) k)))
        merged \<and>
      fst (globalSearch sampleFormatBytes sampleDb damageSearch) =
        Inr \<lparr> results = take (nat (limitOf damageSearch))
                           (drop (nat ((pageOf damageSearch - 1) * limitOf damageSearch)) merged),
              total = 3 \<rparr>) \<and>
   fst (globalSearch sampleFormatBytes sampleDb damageSearch) =
     Inr \<lparr> results = [documentResult sampleFormatBytes sampleDocument, claimResult sampleClaim,
                      policyResult samplePolicy],
           total = 3 \<rparr>"
proof -
  have t: "searchTermsOf (query damageSearch) \<noteq> []"
    by (simp add: damageSearch_simps damage_terms)
  have l: "1 < length (typesOf damageSearch)"
    by (simp add: damageSearch_simps)
  have p: "1 \<le> pageOf damageSearch"
    by (simp add: damageSearch_simps)
  have n: "0 \<le> limitOf damageSearch"
    by (simp add: damageSearch_simps)
  from multi_kind_merge_then_slice[OF t l p n, of sampleFormatBytes sampleDb]
  obtain merged where
    m: "stableNewestFirst
          (requested (typesOf damageSearch)
             (\<lambda>k. take (nat (limitOf damageSearch))
                    (kindHits sampleFormatBytes sampleDb (SearchOptions.userId damageSearch)
                       (searchTermsOf (query damageSearch)) k)))
          merged"
    and g: "globalSearch sampleFormatBytes sampleDb damageSearch =
       (Inr \<lparr> results = take (nat (limitOf damageSearch))
                           (drop (nat ((pageOf damageSearch - 1) * limitOf damageSearch)) merged),
              total = (\<Sum>k\<in>set (typesOf damageSearch).
                         kindCount sampleDb (SearchOptions.userId damageSearch)
                           (searchTermsOf (query damageSearch)) k) \<rparr>,
        requested (typesOf damageSearch)
          (kindTrace (SearchOptions.userId damageSearch) (searchTermsOf (query damageSearch))
             (limitOf damageSearch) 0))"
    by blast
  from g sample_search[of sampleFormatBytes]
  have "fst (globalSearch sampleFormatBytes sampleDb damageSearch) =
        Inr \<lparr> results = take (nat (limitOf damageSearch))
                           (drop (nat ((pageOf damageSearch - 1) * limitOf damageSearch)) merged),
              total = 3 \<rparr>"
    by simp
  with m have e: "\<exists>merged.
      stableNewestFirst
        (requested (typesOf damageSearch)
           (\<lambda>k. take (nat (limitOf damageSearch))
                  (kindHits sampleFormatBytes sampleDb (SearchOptions.userId damageSearch)
                     (searchTermsOf (query damageSearch)) k)))
        merged \<and>
      fst (globalSearch sampleFormatBytes sampleDb damageSearch) =
        Inr \<lparr> results = take (nat (limitOf damageSearch))
                           (drop (nat ((pageOf damageSearch - 1) * limitOf damageSearch)) merged),
              total = 3 \<rparr>"
    by blast
  from t l p n e sample_search[of sampleFormatBytes] show ?thesis
    by (intro conjI) assumption+
qed

subsection \<open>One kind\<close>

text \<open>
  When \<^verbatim>\<open>types\<close> has exactly one entry, page at least 1 and limit not negative, the list
  query is issued with \<^verbatim>\<open>skip\<close> = (page - 1) * limit and \<^verbatim>\<open>take\<close> = limit, and what it
  fetches is returned without slicing. So at most limit results are returned, newest
  first, and, ids being unique, no result of page \<open>k\<close> is a result of page \<open>k + 1\<close>.
\<close>

lemma single_entry_store_pagination:
  assumes "searchTermsOf (query opts) \<noteq> []" and "typesOf opts = [k]"
    and "1 \<le> pageOf opts" and "0 \<le> limitOf opts"
  shows "\<exists>r r'.
     globalSearch fb d opts =
       (Inr r,
        kindTrace (SearchOptions.userId opts) (searchTermsOf (query opts)) (limitOf opts)
          ((pageOf opts - 1) * limitOf opts) k) \<and>
     results r =
       take (nat (limitOf opts))
         (drop (nat ((pageOf opts - 1) * limitOf opts))
            (kindHits fb d (SearchOptions.userId opts) (searchTermsOf (query opts)) k)) \<and>
     length (results r) \<le> nat (limitOf opts) \<and>
     newestFirst (results r) \<and>
     fst (globalSearch fb d (opts\<lparr>page := Some (pageOf opts + 1)\<rparr>)) = Inr r' \<and>
     (uniqueIds d \<longrightarrow>
        set (map SearchResult.id (results r)) \<inter> set (map SearchResult.id (results r')) = {})"
proof -
  let ?uid = "SearchOptions.userId opts"
  let ?terms = "searchTermsOf (query opts)"
  let ?H = "kindHits fb d ?uid ?terms k"
  let ?n = "nat (limitOf opts)"
  let ?s = "nat (skipOf opts)"
  let ?opts' = "opts\<lparr>page := Some (pageOf opts + 1)\<rparr>"
  let ?r = "\<lparr> results = take ?n (drop ?s ?H), total = kindCount d ?uid ?terms k \<rparr>"
  let ?r' = "\<lparr> results = take ?n (drop (?s + ?n) ?H), total = kindCount d ?uid ?terms k \<rparr>"
  have g: "globalSearch fb d opts = (Inr ?r, kindTrace ?uid ?terms (limitOf opts) (skipOf opts) k)"
    by (rule globalSearch_single[OF assms])
  have a': "searchTermsOf (query ?opts') \<noteq> []" "typesOf ?opts' = [k]"
    "1 \<le> pageOf ?opts'" "0 \<le> limitOf ?opts'"
    using assms by (simp_all add: next_page)
  have "nat (skipOf opts + limitOf opts) = ?s + ?n"
    using skipOf_nonneg[OF assms(3,4)] assms(4) by (simp add: nat_add_distrib)
  then have g': "fst (globalSearch fb d ?opts') = Inr ?r'"
    unfolding globalSearch_single[OF a', of fb d] by (simp add: next_page)
  have len: "length (results ?r) \<le> ?n"
    by simp
  have nf: "newestFirst (results ?r)"
    using newestFirst_take_drop[OF newestFirst_kindHits] by simp
  have dj: "uniqueIds d \<longrightarrow>
     set (map SearchResult.id (results ?r)) \<inter> set (map SearchResult.id (results ?r')) = {}"
  proof
    assume "uniqueIds d"
    then have "distinct (map SearchResult.id ?H)"
      by (rule distinct_ids_kindHits)
    from disjoint_pages[OF this, of ?n ?s ?n] show
      "set (map SearchResult.id (results ?r)) \<inter> set (map SearchResult.id (results ?r')) = {}"
      by simp
  qed
  have rs: "results ?r = take ?n (drop ?s ?H)"
    by simp
  from g rs len nf g' dj show ?thesis
    unfolding skipOf_def by blast
qed

lemma single_entry_store_pagination_example:
  "searchTermsOf (query claimOnceSearch) \<noteq> [] \<and> typesOf claimOnceSearch = [claim] \<and>
   1 \<le> pageOf claimOnceSearch \<and> 0 \<le> limitOf claimOnceSearch \<and> uniqueIds twoClaimsDb \<and>
   (\<exists>r r'.
      fst (globalSearch sampleFormatBytes twoClaimsDb claimOnceSearch) = Inr r \<and>
      fst (globalSearch sampleFormatBytes twoClaimsDb
             (claimOnceSearch\<lparr>page := Some (pageOf claimOnceSearch + 1)\<rparr>)) = Inr r' \<and>
      results r = [claimResult sampleClaim] \<and>
      set (map SearchResult.id (results r)) \<inter> set (map SearchResult.id (results r')) = {})"
proof -
  have t: "searchTermsOf (query claimOnceSearch) \<noteq> []"
    by (simp add: claimOnceSearch_simps damage_terms)
  have l: "typesOf claimOnceSearch = [claim]"
    by (simp add: claimOnceSearch_simps)
  have p: "1 \<le> pageOf claimOnceSearch"
    by (simp add: claimOnceSearch_simps)
  have n: "0 \<le> limitOf claimOnceSearch"
    by (simp add: claimOnceSearch_simps)
  note u = uniqueIds_twoClaimsDb
  from single_entry_store_pagination[OF t l p n, of sampleFormatBytes twoClaimsDb]
  obtain r r' where
    g: "fst (globalSearch sampleFormatBytes twoClaimsDb claimOnceSearch) = Inr r"
    and rs: "results r =
       take (nat (limitOf claimOnceSearch))
         (drop (nat ((pageOf claimOnceSearch - 1) * limitOf claimOnceSearch))
            (kindHits sampleFormatBytes twoClaimsDb (SearchOptions.userId claimOnceSearch)
               (searchTermsOf (query claimOnceSearch)) claim))"
    and g': "fst (globalSearch sampleFormatBytes twoClaimsDb
                   (claimOnceSearch\<lparr>page := Some (pageOf claimOnceSearch + 1)\<rparr>)) = Inr r'"
    and dj: "uniqueIds twoClaimsDb \<longrightarrow>
        set (map SearchResult.id (results r)) \<inter> set (map SearchResult.id (results r')) = {}"
    by auto
  from rs have rs': "results r = [claimResult sampleClaim]"
    by (simp add: claimOnceSearch_simps damage_terms twoClaims_hits del: kindHits.simps)
  from dj u have "set (map SearchResult.id (results r)) \<inter> set (map SearchResult.id (results r')) = {}"
    by simp
  with g g' rs' have e: "\<exists>r r'.
      fst (globalSearch sampleFormatBytes twoClaimsDb claimOnceSearch) = Inr r \<and>
      fst (globalSearch sampleFormatBytes twoClaimsDb
             (claimOnceSearch\<lparr>page := Some (pageOf claimOnceSearch + 1)\<rparr>)) = Inr r' \<and>
      results r = [claimResult sampleClaim] \<and>
      set (map SearchResult.id (results r)) \<inter> set (map SearchResult.id (results r')) = {}"
    by blast
  from t l p n u e show ?thesis
    by (intro conjI) assumption+
qed

text \<open>
  C5. A search that requests exactly one kind is to paginate in the store and to return
  what it fetches unsliced. The code does so when \<^verbatim>\<open>types\<close> has one entry, and misses
  the search that names its one kind twice, as the search route passes on for
  \<^verbatim>\<open>types=claim,claim\<close>: with limit 1 and page 2 over two matching claims the list query
  is issued with \<^verbatim>\<open>skip\<close> 0, not 1, and the one claim it fetches is sliced away, so that
  nothing is returned; the same search with the kind named once returns the second claim.
\<close>

theorem single_kind_named_twice:
  "set (typesOf claimTwiceSearch) = {claim} \<and>
   (pageOf claimTwiceSearch - 1) * limitOf claimTwiceSearch = 1 \<and>
   globalSearch sampleFormatBytes twoClaimsDb claimTwiceSearch =
     (Inr \<lparr> results = [], total = 2 \<rparr>,
      [Issue (FindMany ClaimModel (claimWhere ''test-user'' [''damage''])
                [(R_policy, [F_policyNumber])] 1 0),
       Issue (Count ClaimModel (claimWhere ''test-user'' [''damage''])),
       AwaitAll]) \<and>
   globalSearch sampleFormatBytes twoClaimsDb claimOncePageTwoSearch =
     (Inr \<lparr> results = [claimResult secondClaim], total = 2 \<rparr>,
      [Issue (FindMany ClaimModel (claimWhere ''test-user'' [''damage''])
                [(R_policy, [F_policyNumber])] 1 1),
       Issue (Count ClaimModel (claimWhere ''test-user'' [''damage''])),
       AwaitAll])"
proof -
  have t: "searchTermsOf (query claimTwiceSearch) \<noteq> []"
    by (simp add: claimTwiceSearch_simps damage_terms)
  have l: "1 < length (typesOf claimTwiceSearch)"
    by (simp add: claimTwiceSearch_simps)
  have p: "1 \<le> pageOf claimTwiceSearch" "0 \<le> limitOf claimTwiceSearch"
    by (simp_all add: claimTwiceSearch_simps)
  have g: "globalSearch sampleFormatBytes twoClaimsDb claimTwiceSearch =
     (Inr \<lparr> results = [], total = 2 \<rparr>,
      [Issue (FindMany ClaimModel (claimWhere ''test-user'' [''damage''])
                [(R_policy, [F_policyNumber])] 1 0),
       Issue (Count ClaimModel (claimWhere ''test-user'' [''damage''])),
       AwaitAll])"
    unfolding globalSearch_multi[OF t l p, of sampleFormatBytes twoClaimsDb]
    by (simp add: claimTwiceSearch_simps damage_terms requested_def twoClaims_hits
          twoClaims_count sortDesc_single del: kindHits.simps kindCount.simps)
  have t1: "searchTermsOf (query claimOncePageTwoSearch) \<noteq> []"
    by (simp add: claimOncePageTwoSearch_simps damage_terms)
  have l1: "typesOf claimOncePageTwoSearch = [claim]"
    by (simp add: claimOncePageTwoSearch_simps)
  have p1: "1 \<le> pageOf claimOncePageTwoSearch" "0 \<le> limitOf claimOncePageTwoSearch"
    by (simp_all add: claimOncePageTwoSearch_simps)
  have g1: "globalSearch sampleFormatBytes twoClaimsDb claimOncePageTwoSearch =
     (Inr \<lparr> results = [claimResult secondClaim], total = 2 \<rparr>,
      [Issue (FindMany ClaimModel (claimWhere ''test-user'' [''damage''])
                [(R_policy, [F_policyNumber])] 1 1),
       Issue (Count ClaimModel (claimWhere ''test-user'' [''damage''])),
       AwaitAll])"
    unfolding globalSearch_single[OF t1 l1 p1, of sampleFormatBytes twoClaimsDb]
    by (simp add: claimOncePageTwoSearch_simps damage_terms twoClaims_hits
          twoClaims_count del: kindHits.simps kindCount.simps)
  have s: "set (typesOf claimTwiceSearch) = {claim}"
    by (simp add: claimTwiceSearch_simps)
  have k: "(pageOf claimTwiceSearch - 1) * limitOf claimTwiceSearch = 1"
    by (simp add: claimTwiceSearch_simps)
  from s k g g1 show ?thesis
    by (intro conjI) assumption+
qed

subsection \<open>What matches\<close>

text \<open>
  C6. In the global search a record satisfies its kind's search predicate, the
  \<^verbatim>\<open>where\<close> object of the kind's queries, if and only if it belongs to the user and
  some term occurs, letter case ignored, in one of the kind's text fields (policy:
  number, provider, description; claim: number, description; document: file name,
  description), or the kind's inferred condition holds. Terms and fields are joined by
  ``or'' throughout, so terms that occur in different fields make a match as well.
\<close>

theorem search_predicate_any_term_any_field:
  "(where_all (policy_field p) (policyWhere uid terms) \<longleftrightarrow>
      InsurancePolicy.userId p = uid \<and> policyTextMatch terms p) \<and>
   (where_all (claim_field c) (claimWhere uid terms) \<longleftrightarrow>
      Claim.userId c = uid \<and> (claimTextMatch terms c \<or> claimInferred terms c)) \<and>
   (where_all (document_field x) (documentWhere uid terms) \<longleftrightarrow>
      Document.userId x = uid \<and> (documentTextMatch terms x \<or> documentInferred terms x))"
  using policyMatches_iff[of uid terms p] claimMatches_iff[of uid terms c]
    documentMatches_iff[of uid terms x]
  by (simp add: policyMatches_def claimMatches_def documentMatches_def)

theorem search_predicate_any_term_any_field_witness:
  "occursIn ''pol-001'' (policyNumber samplePolicy) \<and>
   occursIn ''insurance'' (InsurancePolicy.provider samplePolicy) \<and>
   where_all (policy_field samplePolicy) (policyWhere ''test-user'' [''insurance'', ''pol-001''])"
proof -
  have a: "occursIn ''pol-001'' (policyNumber samplePolicy)"
    unfolding contains_occursIn[symmetric] by code_simp
  have b: "occursIn ''insurance'' (InsurancePolicy.provider samplePolicy)"
    unfolding contains_occursIn[symmetric] by code_simp
  have u: "InsurancePolicy.userId samplePolicy = ''test-user''"
    by (simp add: samplePolicy_def)
  from a have "policyTextMatch [''insurance'', ''pol-001''] samplePolicy"
    unfolding policyTextMatch_def by simp
  with search_predicate_any_term_any_field
         [of samplePolicy "''test-user''" "[''insurance'', ''pol-001'']"] a b u
  show ?thesis
    by simp
qed

subsection \<open>Keyword inference\<close>

text \<open>
  C7. Keyword inference only widens. When a term matches the keywords of claim statuses
  (of document categories), the condition that the status (category) is among the
  inferred values is one more entry of the \<^verbatim>\<open>OR\<close> list, next to the conditions on the
  text fields. So a record that satisfies the query without inference satisfies the
  query with it, and the matches with inference include the matches without.
\<close>

theorem inference_only_widens:
  "(list_ex (matchKeywords claimKeywords) terms \<longrightarrow>
      claimWhere uid terms =
        [Field F_userId (Equals (VStr uid)),
         OR ([createSearchCondition F_claimNumber terms,
              createSearchCondition F_description terms] @
             [Field F_status (In (map VStr (inferredStatuses terms)))])]) \<and>
   (list_ex (matchKeywords documentKeywords) terms \<longrightarrow>
      documentWhere uid terms =
        [Field F_userId (Equals (VStr uid)),
         OR ([createSearchCondition F_fileName terms,
              createSearchCondition F_description terms] @
             [Field F_documentType (In (map VStr (inferredDocumentTypes terms)))])]) \<and>
   (where_all (claim_field c) (claimTextWhere uid terms) \<longrightarrow>
      where_all (claim_field c) (claimWhere uid terms)) \<and>
   (where_all (document_field x) (documentTextWhere uid terms) \<longrightarrow>
      where_all (document_field x) (documentWhere uid terms)) \<and>
   set (filter (\<lambda>c. where_all (claim_field c) (claimTextWhere uid terms)) (claims d))
     \<subseteq> set (filter (\<lambda>c. where_all (claim_field c) (claimWhere uid terms)) (claims d)) \<and>
   set (filter (\<lambda>x. where_all (document_field x) (documentTextWhere uid terms)) (documents d))
     \<subseteq> set (filter (\<lambda>x. where_all (document_field x) (documentWhere uid terms))
           (documents d))"
proof -
  have c: "where_all (claim_field c) (claimTextWhere uid terms) \<longrightarrow>
             where_all (claim_field c) (claimWhere uid terms)" for c
    using claimMatches_iff[of uid terms c]
    by (simp add: claimTextWhere_iff claimMatches_def)
  have x: "where_all (document_field x) (documentTextWhere uid terms) \<longrightarrow>
             where_all (document_field x) (documentWhere uid terms)" for x
    using documentMatches_iff[of uid terms x]
    by (simp add: documentTextWhere_iff documentMatches_def)
  have w1: "list_ex (matchKeywords claimKeywords) terms \<longrightarrow>
      claimWhere uid terms =
        [Field F_userId (Equals (VStr uid)),
         OR ([createSearchCondition F_claimNumber terms,
              createSearchCondition F_description terms] @
             [Field F_status (In (map VStr (inferredStatuses terms)))])]"
    by (simp add: claimWhere_def inferredStatuses_def comp_def)
  have w2: "list_ex (matchKeywords documentKeywords) terms \<longrightarrow>
      documentWhere uid terms =
        [Field F_userId (Equals (VStr uid)),
         OR ([createSearchCondition F_fileName terms,
              createSearchCondition F_description terms] @
             [Field F_documentType (In (map VStr (inferredDocumentTypes terms)))])]"
    by (simp add: documentWhere_def inferredDocumentTypes_def comp_def)
  have s1: "set (filter (\<lambda>c. where_all (claim_field c) (claimTextWhere uid terms)) (claims d))
     \<subseteq> set (filter (\<lambda>c. where_all (claim_field c) (claimWhere uid terms)) (claims d))"
    using c by auto
  have s2: "set (filter (\<lambda>x. where_all (document_field x) (documentTextWhere uid terms))
                  (documents d))
     \<subseteq> set (filter (\<lambda>x. where_all (document_field x) (documentWhere uid terms))
           (documents d))"
    using x by auto
  from w1 w2 c[of c] x[of x] s1 s2 show ?thesis
    by (intro conjI) assumption+
qed

theorem inference_only_widens_witness:
  "list_ex (matchKeywords claimKeywords) [''water'', ''approved''] \<and>
   where_all (claim_field sampleClaim) (claimTextWhere ''test-user'' [''water'', ''approved'']) \<and>
   where_all (claim_field sampleClaim) (claimWhere ''test-user'' [''water'', ''approved'']) \<and>
   claimWhere ''test-user'' [''water'', ''approved''] =
     [Field F_userId (Equals (VStr ''test-user'')),
      OR ([createSearchCondition F_claimNumber [''water'', ''approved''],
           createSearchCondition F_description [''water'', ''approved'']] @
          [Field F_status (In (map VStr (inferredStatuses [''water'', ''approved''])))])]"
proof -
  have k: "list_ex (matchKeywords claimKeywords) [''water'', ''approved'']"
    by code_simp
  have t: "where_all (claim_field sampleClaim)
             (claimTextWhere ''test-user'' [''water'', ''approved''])"
    by code_simp
  note w = inference_only_widens
             [of "[''water'', ''approved'']" "''test-user''" sampleClaim sampleDocument sampleDb]
  note e = w[THEN conjunct1, rule_format, OF k]
  note m = w[THEN conjunct2, THEN conjunct2, THEN conjunct1, rule_format, OF t]
  from k t m e show ?thesis
    by (intro conjI) assumption+
qed

text \<open>
  C8. When the query is the single term ``approved'' and claims are among the requested
  kinds, every claim of the user whose status is \<open>APPROVED\<close> satisfies the claim search
  predicate, whatever its text fields hold, and is counted: the count of matching claims,
  which is part of the total returned, is at least the number of such claims.
\<close>

theorem approved_term_finds_approved_claims:
  assumes "searchTermsOf (query opts) = [''approved'']"
    and "claim \<in> set (typesOf opts)"
  shows "(\<forall>c. Claim.userId c = SearchOptions.userId opts \<and> Claim.status c = APPROVED \<longrightarrow>
            where_all (claim_field c)
              (claimWhere (SearchOptions.userId opts) (searchTermsOf (query opts)))) \<and>
         int (length (filter (\<lambda>c. Claim.userId c = SearchOptions.userId opts \<and>
                                  Claim.status c = APPROVED) (claims d)))
           \<le> kindCount d (SearchOptions.userId opts) (searchTermsOf (query opts)) claim \<and>
         (\<forall>r. fst (globalSearch fb d opts) = Inr r \<longrightarrow>
            kindCount d (SearchOptions.userId opts) (searchTermsOf (query opts)) claim
              \<le> total r)"
proof -
  let ?uid = "SearchOptions.userId opts"
  have k: "matchKeywords claimKeywords ''approved''"
    by code_simp
  have s: "statusOfTerm ''approved'' = ''APPROVED''"
    by code_simp
  have inf: "inferredStatuses [''approved''] = [''APPROVED'']"
    by (simp add: inferredStatuses_def k s)
  have m: "claimMatches ?uid [''approved''] c"
    if "Claim.userId c = ?uid \<and> Claim.status c = APPROVED" for c
    using that by (simp add: claimMatches_iff claimInferred_def inf)
  have "length (filter (\<lambda>c. Claim.userId c = ?uid \<and> Claim.status c = APPROVED) (claims d))
          \<le> length (filter (claimMatches ?uid [''approved'']) (claims d))"
    by (rule length_filter_mono) (rule m)
  then have n: "int (length (filter (\<lambda>c. Claim.userId c = ?uid \<and> Claim.status c = APPROVED)
                              (claims d)))
                  \<le> kindCount d ?uid [''approved''] claim"
    by simp
  have nonneg: "0 \<le> kindCount d ?uid [''approved''] k" for k
    by (cases k) simp_all
  have t: "kindCount d ?uid [''approved''] claim \<le> total r"
    if r: "fst (globalSearch fb d opts) = Inr r" for r
  proof -
    have ne: "searchTermsOf (query opts) \<noteq> []"
      using assms(1) by simp
    from search_total[OF ne r]
    have "total r = (\<Sum>k\<in>set (typesOf opts). kindCount d ?uid [''approved''] k)"
      using assms(1) by simp
    moreover have "kindCount d ?uid [''approved''] claim
                     \<le> (\<Sum>k\<in>set (typesOf opts). kindCount d ?uid [''approved''] k)"
    proof (rule member_le_sum)
      show "claim \<in> set (typesOf opts)"
        by (rule assms(2))
      show "0 \<le> kindCount d ?uid [''approved''] k" for k
        by (rule nonneg)
      show "finite (set (typesOf opts))"
        by simp
    qed
    ultimately show ?thesis
      by simp
  qed
  have m': "\<forall>c. Claim.userId c = ?uid \<and> Claim.status c = APPROVED \<longrightarrow>
              where_all (claim_field c) (claimWhere ?uid [''approved''])"
    using m by (simp add: claimMatches_def)
  have t': "\<forall>r. fst (globalSearch fb d opts) = Inr r \<longrightarrow>
              kindCount d ?uid [''approved''] claim \<le> total r"
    using t by blast
  from m' n t' show ?thesis
    unfolding assms(1) by (intro conjI) assumption+
qed

theorem approved_term_finds_approved_claims_witness:
  "searchTermsOf (query approvedSearch) = [''approved''] \<and>
   claim \<in> set (typesOf approvedSearch) \<and>
   \<not> occursIn ''approved'' (claimNumber sampleClaim) \<and>
   \<not> occursIn ''approved'' (Claim.description sampleClaim) \<and>
   where_all (claim_field sampleClaim) (claimWhere ''test-user'' [''approved'']) \<and>
   1 \<le> kindCount sampleDb ''test-user'' [''approved''] claim"
proof -
  have q: "searchTermsOf (query approvedSearch) = [''approved'']"
    by code_simp
  have ty: "claim \<in> set (typesOf approvedSearch)"
    by (simp add: typesOf_def approvedSearch_def)
  have u: "SearchOptions.userId approvedSearch = ''test-user''"
    by (simp add: approvedSearch_def)
  have n1: "\<not> occursIn ''approved'' (claimNumber sampleClaim)"
    unfolding contains_occursIn[symmetric] by code_simp
  have n2: "\<not> occursIn ''approved'' (Claim.description sampleClaim)"
    unfolding contains_occursIn[symmetric] by code_simp
  have c: "Claim.userId sampleClaim = ''test-user'' \<and> Claim.status sampleClaim = APPROVED"
    by (simp add: sampleClaim_def)
  have l: "length (filter (\<lambda>c. Claim.userId c = ''test-user'' \<and> Claim.status c = APPROVED)
             (claims sampleDb)) = 1"
    by (simp add: sampleDb_def c)
  note w = approved_term_finds_approved_claims[OF q ty, of sampleDb sampleFormatBytes,
             unfolded q u]
  from w[THEN conjunct1, rule_format, OF c]
  have m: "where_all (claim_field sampleClaim) (claimWhere ''test-user'' [''approved''])" .
  from w[THEN conjunct2, THEN conjunct1] l
  have n: "1 \<le> kindCount sampleDb ''test-user'' [''approved''] claim"
    by simp
  from q ty n1 n2 m n show ?thesis
    by (intro conjI) assumption+
qed

subsection \<open>Policy filters\<close>

text \<open>
  C9, as amended. The \<^verbatim>\<open>where\<close> object of \<^verbatim>\<open>filterPolicies\<close> holds of a policy if and
  only if the policy belongs to the user and satisfies every constraint that is supplied:
  membership of its type and of its provider in the given lists, its active flag as
  given, its coverage amount within the given bounds, its start date not before
  \<^verbatim>\<open>startAfter\<close>, its end date not after \<^verbatim>\<open>endBefore\<close>. A member that is absent imposes
  nothing, and neither does a list that is empty. The list query and the count query carry
  this object; every policy returned is a policy of the store that satisfies it, the
  total is the number of such policies, and for a page of at least 1 and a page size
  that is not negative the rows are the page of these policies, newest first. The
  response is a function of the store and the arguments, so the same call on the same
  store returns the same.
\<close>

theorem filterPolicies_applies_constraints:
  "(where_all (policy_field p) (policyFiltersWhere uid filters) \<longleftrightarrow>
      InsurancePolicy.userId p = uid \<and> policySatisfies filters p) \<and>
   snd (filterPolicies d uid filters pg ps) =
     [Issue (FindMany InsurancePolicyModel (policyFiltersWhere uid filters) []
               (pageSizeArgOf ps) ((pageArgOf pg - 1) * pageSizeArgOf ps)),
      Issue (Count InsurancePolicyModel (policyFiltersWhere uid filters)),
      AwaitAll] \<and>
   (\<forall>rows n. fst (filterPolicies d uid filters pg ps) = Inr (rows, n) \<longrightarrow>
      (\<forall>q\<in>set rows. q \<in> set (policies d) \<and> InsurancePolicy.userId q = uid \<and>
                      policySatisfies filters q) \<and>
      n = int (length (filter (\<lambda>q. InsurancePolicy.userId q = uid \<and> policySatisfies filters q)
                         (policies d)))) \<and>
   (1 \<le> pageArgOf pg \<and> 0 \<le> pageSizeArgOf ps \<longrightarrow>
      fst (filterPolicies d uid filters pg ps) =
        Inr (take (nat (pageSizeArgOf ps))
               (drop (nat ((pageArgOf pg - 1) * pageSizeArgOf ps))
                  (sortDesc InsurancePolicy.updatedAt
                     (filter (\<lambda>q. InsurancePolicy.userId q = uid \<and> policySatisfies filters q)
                        (policies d)))),
             int (length (filter (\<lambda>q. InsurancePolicy.userId q = uid \<and>
                                       policySatisfies filters q) (policies d)))))"
proof -
  let ?size = "pageSizeArgOf ps"
  let ?skip = "(pageArgOf pg - 1) * pageSizeArgOf ps"
  let ?hits = "filter (\<lambda>q. InsurancePolicy.userId q = uid \<and> policySatisfies filters q)
                 (policies d)"
  have a: "where_all (policy_field p) (policyFiltersWhere uid filters) \<longleftrightarrow>
             InsurancePolicy.userId p = uid \<and> policySatisfies filters p"
    by (rule policyFiltersWhere_iff)
  have b: "snd (filterPolicies d uid filters pg ps) =
     [Issue (FindMany InsurancePolicyModel (policyFiltersWhere uid filters) [] ?size ?skip),
      Issue (Count InsurancePolicyModel (policyFiltersWhere uid filters)),
      AwaitAll]"
    by (simp add: filterPolicies_eq Let_def)
  have c: "(\<forall>q\<in>set rows. q \<in> set (policies d) \<and> InsurancePolicy.userId q = uid \<and>
                      policySatisfies filters q) \<and> n = int (length ?hits)"
    if r: "fst (filterPolicies d uid filters pg ps) = Inr (rows, n)" for rows n
  proof -
    from r have rows: "rows = window ?size ?skip (sortDesc InsurancePolicy.updatedAt ?hits)"
      and n: "n = int (length ?hits)"
      by (simp_all add: filterPolicies_eq Let_def split: if_splits)
    have "set rows \<subseteq> set ?hits"
      unfolding rows using set_window[of ?size ?skip "sortDesc InsurancePolicy.updatedAt ?hits"]
      by (simp add: set_sortDesc)
    then have "\<forall>q\<in>set rows. q \<in> set (policies d) \<and> InsurancePolicy.userId q = uid \<and>
                 policySatisfies filters q"
      by auto
    with n show ?thesis
      by simp
  qed
  have e: "1 \<le> pageArgOf pg \<and> 0 \<le> ?size \<longrightarrow>
      fst (filterPolicies d uid filters pg ps) =
        Inr (take (nat ?size) (drop (nat ?skip) (sortDesc InsurancePolicy.updatedAt ?hits)),
             int (length ?hits))"
  proof
    assume h: "1 \<le> pageArgOf pg \<and> 0 \<le> ?size"
    then have "0 \<le> pageArgOf pg - 1" and "0 \<le> ?size"
      by simp_all
    then have "0 \<le> ?skip"
      by (rule mult_nonneg_nonneg)
    then have ns: "\<not> ?skip < 0"
      by (simp only: not_less)
    from h have "window ?size ?skip (sortDesc InsurancePolicy.updatedAt ?hits)
                   = take (nat ?size) (drop (nat ?skip) (sortDesc InsurancePolicy.updatedAt ?hits))"
      by (intro window_nonneg) simp
    then show "fst (filterPolicies d uid filters pg ps) =
        Inr (take (nat ?size) (drop (nat ?skip) (sortDesc InsurancePolicy.updatedAt ?hits)),
             int (length ?hits))"
      unfolding filterPolicies_eq Let_def if_not_P[OF ns] by (simp only: fst_conv)
  qed
  from c have c': "\<forall>rows n. fst (filterPolicies d uid filters pg ps) = Inr (rows, n) \<longrightarrow>
      (\<forall>q\<in>set rows. q \<in> set (policies d) \<and> InsurancePolicy.userId q = uid \<and>
                      policySatisfies filters q) \<and> n = int (length ?hits)"
    by blast
  from a b c' e show ?thesis
    by (intro conjI) assumption+
qed

theorem filterPolicies_applies_constraints_witness:
  "policyFiltersWhere ''test-user'' homeFilters =
     [Field F_userId (Equals (VStr ''test-user'')),
      Field F_insuranceType (In [VStr ''HOME'']),
      Field F_provider (In [VStr ''Insurance Co'']),
      Field F_isActive (Equals (VBool True)),
      Field F_coverageAmount (Range (Some (VNum 100000)) (Some (VNum 500000)))] \<and>
   1 \<le> pageArgOf (Some 1) \<and> 0 \<le> pageSizeArgOf (Some 10) \<and>
   policySatisfies homeFilters samplePolicy \<and>
   where_all (policy_field samplePolicy) (policyFiltersWhere ''test-user'' homeFilters) \<and>
   fst (filterPolicies sampleDb ''test-user'' homeFilters (Some 1) (Some 10))
     = Inr ([samplePolicy], 1)"
proof -
  note w = filterPolicies_applies_constraints
             [of samplePolicy "''test-user''" homeFilters sampleDb "Some 1" "Some 10"]
  have p: "1 \<le> pageArgOf (Some 1)" and n: "0 \<le> pageSizeArgOf (Some 10)"
    by (simp_all add: pageArgOf_def pageSizeArgOf_def)
  have u: "InsurancePolicy.userId samplePolicy = ''test-user''"
    by (simp add: samplePolicy_def)
  from w[THEN conjunct1] u samplePolicy_home
  have m: "where_all (policy_field samplePolicy) (policyFiltersWhere ''test-user'' homeFilters)"
    by simp
  from w[THEN conjunct2, THEN conjunct2, THEN conjunct2, rule_format, OF conjI[OF p n]]
  have f: "fst (filterPolicies sampleDb ''test-user'' homeFilters (Some 1) (Some 10))
             = Inr ([samplePolicy], 1)"
    by (simp add: sampleDb_def u samplePolicy_home sortDesc_single pageArgOf_def
          pageSizeArgOf_def)
  from homeFilters_where p n samplePolicy_home m f show ?thesis
    by (intro conjI) assumption+
qed

text \<open>
  C9 as it is stated fails for a filter whose list of insurance types is supplied but
  empty: the sample policy is returned, though its type is not a member of that list.
\<close>

theorem empty_list_filter_counterexample:
  "PolicyFilters.insuranceType emptyTypeFilters = Some [] \<and>
   fst (filterPolicies sampleDb ''test-user'' emptyTypeFilters None None)
     = Inr ([samplePolicy], 1) \<and>
   \<not> policySatisfiesSupplied emptyTypeFilters samplePolicy"
proof -
  have s: "policySatisfies emptyTypeFilters samplePolicy"
    by (simp add: policySatisfies_def emptyTypeFilters_def)
  have u: "InsurancePolicy.userId samplePolicy = ''test-user''"
    by (simp add: samplePolicy_def)
  have f: "fst (filterPolicies sampleDb ''test-user'' emptyTypeFilters None None)
             = Inr ([samplePolicy], 1)"
    by (simp add: filterPolicies_eq Let_def pageArgOf_def pageSizeArgOf_def sampleDb_def s u
          sortDesc_single window_def)
  have e: "PolicyFilters.insuranceType emptyTypeFilters = Some []"
    by (simp add: emptyTypeFilters_def)
  have n: "\<not> policySatisfiesSupplied emptyTypeFilters samplePolicy"
    by (simp add: policySatisfiesSupplied_def emptyTypeFilters_def)
  from e f n show ?thesis
    by (intro conjI) assumption+
qed

subsection \<open>The order of the store calls\<close>

text \<open>
  C10, as amended. In a search with several entries in \<^verbatim>\<open>types\<close> the requested kinds
  are searched one after another, in the order policy, claim, document: the list query and
  the count query of a kind are issued together and awaited together, and the calls of the
  next kind are issued only after that. The results are merged after the last
  \<^verbatim>\<open>await\<close>.
\<close>

theorem kinds_searched_one_after_another:
  assumes "searchTermsOf (query opts) \<noteq> []" and "1 < length (typesOf opts)"
  shows "snd (globalSearch fb d opts) =
     requested (typesOf opts)
       (kindTrace (SearchOptions.userId opts) (searchTermsOf (query opts)) (limitOf opts) 0)"
proof -
  have sk: "storeSkip opts = 0"
    using assms(2) by (simp add: storeSkip_def)
  then have nn: "0 \<le> storeSkip opts"
    by simp
  show ?thesis
    unfolding globalSearch_ok[OF assms(1) nn, of fb d] sk by simp
qed

theorem kinds_searched_one_after_another_witness:
  "searchTermsOf (query damageSearch) \<noteq> [] \<and> 1 < length (typesOf damageSearch) \<and>
   snd (globalSearch sampleFormatBytes sampleDb damageSearch) =
     [Issue (FindMany InsurancePolicyModel (policyWhere ''test-user'' [''damage'']) [] 20 0),
      Issue (Count InsurancePolicyModel (policyWhere ''test-user'' [''damage''])),
      AwaitAll,
      Issue (FindMany ClaimModel (claimWhere ''test-user'' [''damage''])
               [(R_policy, [F_policyNumber])] 20 0),
      Issue (Count ClaimModel (claimWhere ''test-user'' [''damage''])),
      AwaitAll,
      Issue (FindMany DocumentModel (documentWhere ''test-user'' [''damage'']) [] 20 0),
      Issue (Count DocumentModel (documentWhere ''test-user'' [''damage''])),
      AwaitAll]"
proof -
  have t: "searchTermsOf (query damageSearch) \<noteq> []"
    by (simp add: damageSearch_simps damage_terms)
  have l: "1 < length (typesOf damageSearch)"
    by (simp add: damageSearch_simps)
  from kinds_searched_one_after_another[OF t l, of sampleFormatBytes sampleDb] t l
  show ?thesis
    by (simp add: damageSearch_simps damage_terms requested_def)
qed

text \<open>
  C10 as it is stated fails: in the search for ``damage'' across the three kinds the
  claim queries are issued after the service has waited for the policy queries.
\<close>

theorem fan_out_counterexample:
  "\<not> fanOutFanIn (snd (globalSearch sampleFormatBytes sampleDb damageSearch))"
proof -
  have t: "searchTermsOf (query damageSearch) \<noteq> []"
    by (simp add: damageSearch_simps damage_terms)
  have "0 \<le> storeSkip damageSearch"
    by (simp add: storeSkip_def damageSearch_simps)
  from globalSearch_ok[OF t this, of sampleFormatBytes sampleDb] show ?thesis
    by (simp add: damageSearch_simps requested_def fanOutFanIn_def)
qed

end
